theory Spec2Isabelle
  imports Complex_Main "HOL-Library.Log_Nat"
begin

section \<open>The convolutional reverb of pymixconsole\<close>

text \<open>
  The development embeds \<^verbatim>\<open>pymixconsole/processors/convreverb.py\<close>: the class
  \<^verbatim>\<open>ConvolutionalReverb\<close> with its methods \<^verbatim>\<open>load\<close>, \<^verbatim>\<open>update\<close> and
  \<^verbatim>\<open>process\<close>.

  Conventions of the embedding.
  \<^item> A Python float is a \<^typ>\<open>real\<close> and a numpy complex number a \<^typ>\<open>complex\<close>.
    The arithmetic on samples and gains is exact. Where a float becomes an index (lines 86
    and 87) the product is rounded to a double first, as the machine does it: see
    \<open>double\<close> below.
  \<^item> A one-dimensional numpy array is a list. A two-dimensional array of shape
    \<open>(n, c)\<close> (\<open>n\<close> samples, \<open>c\<close> channels) is the list of its \<open>c\<close> channels, each a
    list of \<open>n\<close> samples. A three-dimensional array of shape \<open>(n, c, K)\<close> is the list
    of its \<open>K\<close> slices along the last axis, each a two-dimensional array.
    The row count of an array without channels is not represented and read as \<open>0\<close>.
  \<^item> A method that mutates \<^verbatim>\<open>self\<close> takes the object and returns the new one; an
    exception is a value \<open>Inl e\<close>.
\<close>

subsection \<open>Data\<close>

datatype error =
    KeyError | FileNotFoundError | RuntimeError | ZeroDivisionError | IndexError | ValueError

type_synonym 'a arr2 = "'a list list"
type_synonym 'a arr3 = "'a list list list"

text \<open>The arrays that reach the processor from outside: mono data is one-dimensional.\<close>

datatype 'a ndarray = A1 "'a list" | A2 "'a arr2"

text \<open>The values of the five parameters registered by the constructor, with the option
  list of \<^verbatim>\<open>type\<close>.\<close>

record parameter_list =
  bypass :: bool
  type_value :: string
  type_options :: "string list"
  decay :: real
  dry_mix :: real
  wet_mix :: real

record reverb =
  parameters :: parameter_list
  block_size :: nat
  sample_rate :: nat
  impulses :: "string \<rightharpoonup> real ndarray"
  h :: "real arr3"
  h_new :: "real arr3"
  H :: "complex arr3"
  X :: "complex arr3"
  overlap :: "real arr2"

text \<open>The module-level table \<^verbatim>\<open>src\<close> of impulse response files.\<close>

definition src :: "(string \<times> string) list" where
  "src = [(''sm-room'', ''small_room.wav''),
          (''md-room'', ''medium_room.wav''),
          (''lg-room'', ''large_room.wav''),
          (''hall'', ''hall.wav''),
          (''plate'', ''plate.wav'')]"

definition default_parameters :: parameter_list where
  "default_parameters =
     \<lparr>bypass = False, type_value = ''sm-room'', type_options = map fst src,
      decay = 1.0, dry_mix = 0.8, wet_mix = 0.1\<rparr>"

subsection \<open>The numpy operations the processor uses\<close>

definition nrows :: "'a arr2 \<Rightarrow> nat" where
  "nrows a = (case a of [] \<Rightarrow> 0 | c # _ \<Rightarrow> length c)"

definition ncols3 :: "'a arr3 \<Rightarrow> nat" where
  "ncols3 a = (case a of [] \<Rightarrow> 0 | p # _ \<Rightarrow> length p)"

definition nrows3 :: "'a arr3 \<Rightarrow> nat" where
  "nrows3 a = (case a of [] \<Rightarrow> 0 | p # _ \<Rightarrow> nrows p)"

text \<open>\<open>has_shape2 n c a\<close>: the array \<open>a\<close> is rectangular of shape \<open>(n, c)\<close>;
  \<open>has_shape3 n c K a\<close>: of shape \<open>(n, c, K)\<close>.\<close>

definition has_shape2 :: "nat \<Rightarrow> nat \<Rightarrow> 'a arr2 \<Rightarrow> bool" where
  "has_shape2 n c a \<longleftrightarrow> length a = c \<and> list_all (\<lambda>ch. length ch = n) a"

definition has_shape3 :: "nat \<Rightarrow> nat \<Rightarrow> nat \<Rightarrow> 'a arr3 \<Rightarrow> bool" where
  "has_shape3 n c K a \<longleftrightarrow> length a = K \<and> list_all (has_shape2 n c) a"

text \<open>Broadcasting: two axes are compatible when their lengths agree or one of them is
  \<open>1\<close>; an axis of length \<open>1\<close> is read at index \<open>0\<close> throughout.\<close>

definition bdim :: "nat \<Rightarrow> nat \<Rightarrow> nat option" where
  "bdim a b = (if a = b then Some a else if a = 1 then Some b else if b = 1 then Some a else None)"

definition bidx :: "nat \<Rightarrow> nat \<Rightarrow> nat" where
  "bidx n i = (if n = 1 then 0 else i)"

text \<open>An elementwise binary operation on two-dimensional arrays.\<close>

definition bop2 :: "('a \<Rightarrow> 'a \<Rightarrow> 'a) \<Rightarrow> 'a arr2 \<Rightarrow> 'a arr2 \<Rightarrow> error + 'a arr2" where
  "bop2 f a b =
     (case (bdim (length a) (length b), bdim (nrows a) (nrows b)) of
        (Some C, Some R) \<Rightarrow>
          Inr (map (\<lambda>c. map (\<lambda>i. f (a ! bidx (length a) c ! bidx (nrows a) i)
                                    (b ! bidx (length b) c ! bidx (nrows b) i)) [0..<R]) [0..<C])
      | _ \<Rightarrow> Inl ValueError)"

text \<open>\<^verbatim>\<open>np.sum(X * H, axis=2)\<close>: the elementwise product of two three-dimensional
  arrays, summed over the last axis.\<close>

definition mul_sum :: "complex arr3 \<Rightarrow> complex arr3 \<Rightarrow> error + complex arr2" where
  "mul_sum xs hs =
     (case (bdim (length xs) (length hs), bdim (ncols3 xs) (ncols3 hs),
            bdim (nrows3 xs) (nrows3 hs)) of
        (Some K, Some C, Some R) \<Rightarrow>
          Inr (map (\<lambda>c. map (\<lambda>i. \<Sum>k\<leftarrow>[0..<K].
                 xs ! bidx (length xs) k ! bidx (ncols3 xs) c ! bidx (nrows3 xs) i *
                 hs ! bidx (length hs) k ! bidx (ncols3 hs) c ! bidx (nrows3 hs) i)
               [0..<R]) [0..<C])
      | _ \<Rightarrow> Inl ValueError)"

text \<open>\<^verbatim>\<open>np.roll(X, 1, axis=2)\<close>: every slice moves one place up, the last one comes
  first.\<close>

definition roll :: "'a list \<Rightarrow> 'a list" where
  "roll xs = (if xs = [] then [] else last xs # butlast xs)"

text \<open>\<^verbatim>\<open>X[:,:,0] = v\<close>: the value is broadcast to the shape of the slice.\<close>

definition assign_slot0 :: "'a arr3 \<Rightarrow> 'a arr2 \<Rightarrow> error + 'a arr3" where
  "assign_slot0 xs v =
     (case xs of
        [] \<Rightarrow> Inl IndexError
      | t # rest \<Rightarrow>
          if (length v = length t \<or> length v = 1) \<and> (nrows v = nrows t \<or> nrows v = 1)
          then Inr (map (\<lambda>c. map (\<lambda>i. v ! bidx (length v) c ! bidx (nrows v) i)
                                   [0..<nrows t]) [0..<length t] # rest)
          else Inl ValueError)"

text \<open>\<^verbatim>\<open>np.fft.fft\<close> and \<^verbatim>\<open>np.fft.ifft\<close> of a one-dimensional array, as numpy
  documents them: the discrete Fourier transform and its inverse, of the length of the
  input.\<close>

definition fft :: "complex list \<Rightarrow> complex list" where
  "fft a = map (\<lambda>k. \<Sum>m\<leftarrow>[0..<length a].
                   a ! m * cis (- 2 * pi * real m * real k / real (length a)))
               [0..<length a]"

definition ifft :: "complex list \<Rightarrow> complex list" where
  "ifft a = map (\<lambda>m. (\<Sum>k\<leftarrow>[0..<length a].
                   a ! k * cis (2 * pi * real m * real k / real (length a)))
                  / of_nat (length a))
               [0..<length a]"

text \<open>The transforms along axis \<open>0\<close>; numpy refuses an axis without data points.\<close>

definition fft_axis0 :: "real arr2 \<Rightarrow> error + complex arr2" where
  "fft_axis0 a = (if nrows a = 0 then Inl ValueError
                  else Inr (map (\<lambda>c. fft (map complex_of_real c)) a))"

definition ifft_axis0 :: "complex arr2 \<Rightarrow> error + complex arr2" where
  "ifft_axis0 a = (if nrows a = 0 then Inl ValueError else Inr (map ifft a))"

text \<open>Python's \<^verbatim>\<open>int()\<close> of a float truncates towards zero; a slice bound counts
  from the end when negative and is clipped to the length.\<close>

definition py_int :: "real \<Rightarrow> int" where
  "py_int r = (if r < 0 then \<lceil>r\<rceil> else \<lfloor>r\<rfloor>)"

definition slice_index :: "nat \<Rightarrow> int \<Rightarrow> nat" where
  "slice_index n i = (if i < 0 then nat (int n + i) else min n (nat i))"

text \<open>A Python float is an IEEE double: a sign, a significand of \<open>53\<close> bits and an exponent.
  \<open>binade x\<close> is the exponent \<open>e\<close> with \<open>2 ^ e \<le> \<bar>x\<bar> < 2 ^ (e + 1)\<close>, for \<open>x\<close> other than
  \<open>0\<close>. \<open>double x\<close> is the double nearest to \<open>x\<close>, with a tie going to the even
  significand, as a multiplication of doubles and the reading of a literal round: the
  doubles of the binade \<open>e\<close> are the multiples of \<open>2 ^ (e - 52)\<close>, and below \<open>2 ^ - 1022\<close>
  those of \<open>2 ^ - 1074\<close>. From \<open>2 ^ 53\<close> on, where every double is an integer, the value is
  left as it is: a length or a rate is below that and becomes a double exactly, and a
  decay in the declared range times a length stays below it.\<close>

definition binade :: "real \<Rightarrow> int" where
  "binade x = (if 1 \<le> \<bar>x\<bar> then bitlen \<lfloor>\<bar>x\<bar>\<rfloor> - 1 else - bitlen (\<lceil>1 / \<bar>x\<bar>\<rceil> - 1))"

definition round_half_even :: "real \<Rightarrow> int" where
  "round_half_even y =
     (let f = \<lfloor>y\<rfloor>
      in if y - of_int f < 1 / 2 then f
         else if 1 / 2 < y - of_int f then f + 1
         else if even f then f else f + 1)"

definition double :: "real \<Rightarrow> real" where
  "double x =
     (if 2 ^ 53 \<le> \<bar>x\<bar> then x
      else let q = power_int 2 (max (binade x) (- 1022) - 52)
           in of_int (round_half_even (x / q)) * q)"

subsection \<open>\<^verbatim>\<open>process\<close>\<close>

text \<open>Lines 42 to 46: a one-dimensional block gets a channel axis, and a single channel
  is copied to a second one.\<close>

definition stereo :: "real ndarray \<Rightarrow> real arr2" where
  "stereo x =
     (let cs = (case x of A1 v \<Rightarrow> [v] | A2 cs \<Rightarrow> cs)
      in if length cs = 1 then [hd cs, hd cs] else cs)"

text \<open>Lines 38 to 61. The padded block, its transform, the rolled history with the
  transform in slot \<open>0\<close>, the sum of the products with the filters, the real part of its
  inverse transform, the overlap added, the two gains, the mix. The in-place products of
  lines 57 and 58 act on arrays made in this call, not on the caller's block.\<close>

definition process :: "reverb \<Rightarrow> real ndarray \<Rightarrow> error + (real ndarray \<times> reverb)" where
  "process s x =
     (if bypass (parameters s) then Inr (x, s)
      else
        let B = block_size s;
            xp = map (\<lambda>c. c @ replicate B 0) (stereo x);
            X1 = roll (X s)
        in case fft_axis0 xp of Inl e \<Rightarrow> Inl e | Inr fx \<Rightarrow>
           case assign_slot0 X1 fx of Inl e \<Rightarrow> Inl e | Inr X2 \<Rightarrow>
           case mul_sum X2 (H s) of Inl e \<Rightarrow> Inl e | Inr Y \<Rightarrow>
           case ifft_axis0 Y of Inl e \<Rightarrow> Inl e | Inr yc \<Rightarrow>
           let y = map (map Re) yc
           in case bop2 (+) (map (take B) y) (overlap s) of Inl e \<Rightarrow> Inl e | Inr wet \<Rightarrow>
              let dry = map (take B) xp;
                  overlap' = map (drop B) y;
                  wet' = map (map (\<lambda>v. v * wet_mix (parameters s))) wet;
                  dry' = map (map (\<lambda>v. v * dry_mix (parameters s))) dry
              in case bop2 (+) wet' dry' of Inl e \<Rightarrow> Inl e | Inr out \<Rightarrow>
                 Inr (A2 out, s\<lparr>X := X2, overlap := overlap'\<rparr>))"

subsection \<open>\<^verbatim>\<open>load\<close>\<close>

text \<open>The file system, as far as \<^verbatim>\<open>wavfile.read\<close> sees it: the sample rate and the
  integer samples of each file of the impulse response directory.\<close>

type_synonym files = "string \<rightharpoonup> (nat \<times> int ndarray)"

text \<open>Lines 77 and 78: conversion to double, division by \<open>2 ^ 16\<close>, scaling by
  \<open>0.125\<close>.\<close>

definition scale_sample :: "int \<Rightarrow> real" where
  "scale_sample v = real_of_int v / (2 ^ 16) * 0.125"

definition scale :: "int ndarray \<Rightarrow> real ndarray" where
  "scale a = (case a of A1 v \<Rightarrow> A1 (map scale_sample v)
                      | A2 cs \<Rightarrow> A2 (map (map scale_sample) cs))"

text \<open>The loop of \<^verbatim>\<open>load\<close> over the options that are left. The file name is looked
  up under the current value of \<^verbatim>\<open>type\<close> (line 68), the result is stored under the
  loop variable (line 79).\<close>

fun load_loop :: "files \<Rightarrow> reverb \<Rightarrow> string list \<Rightarrow> error + reverb" where
  "load_loop fs s [] = Inr s"
| "load_loop fs s (reverb # rest) =
     (case map_of src (type_value (parameters s)) of
        None \<Rightarrow> Inl KeyError
      | Some filename \<Rightarrow>
          (case fs filename of
             None \<Rightarrow> Inl FileNotFoundError
           | Some (sr, dat) \<Rightarrow>
               if sr \<noteq> sample_rate s then Inl RuntimeError
               else load_loop fs (s\<lparr>impulses := (impulses s)(reverb \<mapsto> scale dat)\<rparr>) rest))"

definition load :: "files \<Rightarrow> reverb \<Rightarrow> error + reverb" where
  "load fs s = load_loop fs s (type_options (parameters s))"

subsection \<open>\<^verbatim>\<open>update\<close>\<close>

definition shape0 :: "'a ndarray \<Rightarrow> nat" where
  "shape0 a = (case a of A1 v \<Rightarrow> length v | A2 cs \<Rightarrow> nrows cs)"

text \<open>Lines 86 to 88: the bounds of the fade. The decay is a double; its product with the
  length is rounded to a double and then cut to an integer. The literal \<^verbatim>\<open>0.020\<close> is
  the double nearest to it, and its product with the sample rate is rounded likewise.\<close>

definition fstart :: "real \<Rightarrow> nat \<Rightarrow> int" where
  "fstart d L = py_int (double (d * real L))"

definition fstop :: "real \<Rightarrow> nat \<Rightarrow> nat \<Rightarrow> int" where
  "fstop d sr L = min (int L) (fstart d L + py_int (double (double 0.020 * real sr)))"

definition flen :: "real \<Rightarrow> nat \<Rightarrow> nat \<Rightarrow> int" where
  "flen d sr L = fstop d sr L - fstart d L"

text \<open>Lines 92 and 93: the gains of the fade.\<close>

definition fade :: "int \<Rightarrow> real list" where
  "fade n = map (\<lambda>i. 0.1 powr ((1 - real i / real_of_int n) * 5)) [0..<nat n]"

text \<open>Lines 94 to 96: the gains get a second, equal channel and multiply the slice
  \<^verbatim>\<open>h[fstart:fstop,:]\<close> in place. A one-dimensional impulse has no second axis to
  index; the slice must have two channels and as many rows as there are gains, unless
  there is one gain only.\<close>

definition apply_fade :: "int \<Rightarrow> int \<Rightarrow> real list \<Rightarrow> real ndarray \<Rightarrow> error + real ndarray" where
  "apply_fade a b g hh =
     (case hh of
        A1 v \<Rightarrow> Inl IndexError
      | A2 cs \<Rightarrow>
          let i0 = slice_index (nrows cs) a;
              m = slice_index (nrows cs) b - i0
          in if length cs = 2 \<and> (length g = m \<or> length g = 1)
             then Inr (A2 (map (\<lambda>c. take i0 c
                                     @ map (\<lambda>i. c ! (i0 + i) * g ! bidx (length g) i) [0..<m]
                                     @ drop (i0 + m) c) cs))
             else Inl ValueError)"

text \<open>Line 97: \<^verbatim>\<open>h[:fstop]\<close>.\<close>

definition cut :: "int \<Rightarrow> real ndarray \<Rightarrow> real ndarray" where
  "cut b hh =
     (case hh of
        A1 v \<Rightarrow> A1 (take (slice_index (length v) b) v)
      | A2 cs \<Rightarrow> A2 (map (take (slice_index (nrows cs) b)) cs))"

text \<open>Lines 83 to 97: the copy of the stored impulse, faded out and cut.\<close>

definition shaped :: "real \<Rightarrow> nat \<Rightarrow> real ndarray \<Rightarrow> error + real ndarray" where
  "shaped d sr h0 =
     (let L = shape0 h0
      in if flen d sr L > 0
         then (case apply_fade (fstart d L) (fstop d sr L) (fade (flen d sr L)) h0 of
                 Inl e \<Rightarrow> Inl e
               | Inr h1 \<Rightarrow> Inr (cut (fstop d sr L) h1))
         else Inr h0)"

text \<open>Lines 102 and 103: the padding. Line 102 divides by the block size; the pad widths
  of line 103 name two axes.\<close>

definition padded :: "nat \<Rightarrow> real ndarray \<Rightarrow> error + real arr2" where
  "padded B hh =
     (if B = 0 then Inl ZeroDivisionError
      else case hh of
             A1 v \<Rightarrow> Inl ValueError
           | A2 cs \<Rightarrow> Inr (map (\<lambda>c. c @ replicate (B - nrows cs mod B) 0) cs))"

text \<open>Lines 108 to 116: the blocks of the impulse, each padded to twice the block
  size.\<close>

definition nfilters :: "nat \<Rightarrow> real arr2 \<Rightarrow> nat" where
  "nfilters B hp = nrows hp div B"

definition chopped :: "nat \<Rightarrow> real arr2 \<Rightarrow> real arr3" where
  "chopped B hp =
     map (\<lambda>n. map (\<lambda>c. take B (drop (n * B) c) @ replicate B 0) hp) [0..<nfilters B hp]"

text \<open>The method as a whole. Its argument \<^verbatim>\<open>parameter_name\<close> is never read and is
  left out, as are the three calls of \<^verbatim>\<open>print\<close>. Lines 120 to 125 store the chopped
  impulse, its transform, the transform of an array of zeros of the same shape, and an
  overlap of zeros.\<close>

definition update :: "reverb \<Rightarrow> error + reverb" where
  "update s =
     (case impulses s (type_value (parameters s)) of
        None \<Rightarrow> Inl KeyError
      | Some h0 \<Rightarrow>
          (case shaped (decay (parameters s)) (sample_rate s) h0 of
             Inl e \<Rightarrow> Inl e
           | Inr h1 \<Rightarrow>
               (case padded (block_size s) h1 of
                  Inl e \<Rightarrow> Inl e
                | Inr hp \<Rightarrow>
                    let hn = chopped (block_size s) hp
                    in Inr (s\<lparr>h := hn, h_new := hn,
                             H := map (map (\<lambda>c. fft (map complex_of_real c))) hn,
                             X := map (map (\<lambda>c. fft (map complex_of_real (map (\<lambda>_. 0) c)))) hn,
                             overlap := replicate (length hp) (replicate (block_size s) 0)\<rparr>))))"

subsection \<open>The constructor\<close>

text \<open>\<^verbatim>\<open>__init__\<close>: the parameter list handed in or the default one, an empty
  dictionary, \<^verbatim>\<open>load\<close>, then \<^verbatim>\<open>update\<close>. The arrays are attributes only once
  \<^verbatim>\<open>update\<close> has set them; before that they are empty here.\<close>

definition init :: "files \<Rightarrow> parameter_list option \<Rightarrow> nat \<Rightarrow> nat \<Rightarrow> error + reverb" where
  "init fs ps B sr =
     (let s0 = \<lparr>parameters = (case ps of None \<Rightarrow> default_parameters | Some p \<Rightarrow> p),
                block_size = B, sample_rate = sr, impulses = Map.empty,
                h = [], h_new = [], H = [], X = [], overlap = []\<rparr>
      in case load fs s0 of Inl e \<Rightarrow> Inl e | Inr s1 \<Rightarrow> update s1)"

section \<open>Well-formed arrays and states\<close>

text \<open>A numpy array is rectangular, and an array read from a WAV file with more than one
  channel has at least one channel: in \<open>A2 cs\<close> every channel has the length of the
  first.\<close>

definition rect :: "'a ndarray \<Rightarrow> bool" where
  "rect a = (case a of A1 v \<Rightarrow> True
                    | A2 cs \<Rightarrow> cs \<noteq> [] \<and> list_all (\<lambda>c. length c = nrows cs) cs)"

text \<open>The impulse stored under the current value of \<^verbatim>\<open>type\<close>, if there is one, is
  such an array; so are the contents of the files that the table \<^verbatim>\<open>src\<close> names.\<close>

definition impulse_ok :: "reverb \<Rightarrow> bool" where
  "impulse_ok s = (case impulses s (type_value (parameters s)) of
                     None \<Rightarrow> True | Some a \<Rightarrow> rect a)"

definition files_ok :: "files \<Rightarrow> bool" where
  "files_ok fs = list_all (\<lambda>(k, name). case fs name of None \<Rightarrow> True
                                          | Some (sr, dat) \<Rightarrow> rect dat) src"

text \<open>The history \<^verbatim>\<open>X\<close> and the filters \<^verbatim>\<open>H\<close> are rectangular and of one
  shape.\<close>

definition same_shape :: "reverb \<Rightarrow> bool" where
  "same_shape s \<longleftrightarrow>
     has_shape3 (nrows3 (H s)) (ncols3 (H s)) (length (H s)) (H s) \<and>
     has_shape3 (nrows3 (H s)) (ncols3 (H s)) (length (H s)) (X s)"

section \<open>Concrete instances\<close>

text \<open>A processor whose decay lies below the declared minimum, before \<^verbatim>\<open>update\<close>
  runs: a stereo impulse of four samples, a block size of two samples and a sample rate
  of \<open>100\<close>, so that the fade is two samples long.\<close>

definition negative_decay :: reverb where
  "negative_decay =
     \<lparr>parameters = default_parameters\<lparr>decay := - 1 / 2\<rparr>,
      block_size = 2, sample_rate = 100,
      impulses = [''sm-room'' \<mapsto> A2 [[1, 1, 1, 1], [1, 1, 1, 1]]],
      h = [], h_new = [], H = [], X = [], overlap = []\<rparr>"

text \<open>A processor in bypass.\<close>

definition bypassed :: reverb where
  "bypassed =
     \<lparr>parameters = default_parameters\<lparr>bypass := True\<rparr>,
      block_size = 2, sample_rate = 100,
      impulses = [''sm-room'' \<mapsto> A2 [[1, 1, 1, 1], [1, 1, 1, 1]]],
      h = [], h_new = [], H = [], X = [], overlap = []\<rparr>"

text \<open>A processor before \<^verbatim>\<open>update\<close>, with the default parameters (a decay of \<open>1\<close>,
  no fade), a stereo impulse of four samples and a block size of two samples.\<close>

definition fresh :: reverb where
  "fresh =
     \<lparr>parameters = default_parameters,
      block_size = 2, sample_rate = 100,
      impulses = [''sm-room'' \<mapsto> A2 [[1, 2, 3, 4], [5, 6, 7, 8]]],
      h = [], h_new = [], H = [], X = [], overlap = []\<rparr>"

text \<open>The five files of the impulse response directory, as sample rate and the samples
  of the two channels; the same directory with \<^verbatim>\<open>hall.wav\<close> at another rate; a
  processor before \<^verbatim>\<open>load\<close>, as the constructor sets it up.\<close>

definition rooms :: files where
  "rooms = [''small_room.wav'' \<mapsto> (44100, A2 [[8, 16], [8, 16]]),
            ''medium_room.wav'' \<mapsto> (44100, A2 [[24, 8], [24, 8]]),
            ''large_room.wav'' \<mapsto> (44100, A2 [[40, 8, 8], [40, 8, 8]]),
            ''hall.wav'' \<mapsto> (44100, A2 [[32, 0, 0], [32, 0, 0]]),
            ''plate.wav'' \<mapsto> (44100, A2 [[16], [16]])]"

definition rooms_mixed_rates :: files where
  "rooms_mixed_rates = rooms(''hall.wav'' \<mapsto> (48000, A2 [[32, 0, 0], [32, 0, 0]]))"

definition unloaded :: reverb where
  "unloaded =
     \<lparr>parameters = default_parameters, block_size = 2, sample_rate = 44100,
      impulses = Map.empty, h = [], h_new = [], H = [], X = [], overlap = []\<rparr>"

text \<open>A processor with a block size of one sample, two partitions and two channels. The
  filters are those that \<^verbatim>\<open>update\<close> builds from the impulse of one sample with value
  \<open>1\<close>; the history and the overlap are chosen freely, in the shapes that \<^verbatim>\<open>update\<close>
  gives them.\<close>

definition running :: reverb where
  "running =
     \<lparr>parameters = default_parameters, block_size = 1, sample_rate = 100,
      impulses = [''sm-room'' \<mapsto> A2 [[1], [1]]],
      h = [[[1, 0], [1, 0]], [[0, 0], [0, 0]]],
      h_new = [[[1, 0], [1, 0]], [[0, 0], [0, 0]]],
      H = [[[1, 1], [1, 1]], [[0, 0], [0, 0]]],
      X = [[[3, 3], [4, 4]], [[1, 1], [2, 2]]],
      overlap = [[1 / 2], [1 / 4]]\<rparr>"

section \<open>Properties\<close>

subsection \<open>Auxiliary facts\<close>

text \<open>Rounding to a double never crosses an integer, so integers are doubles in the
  model. The rounding decides indices: for the decay \<open>0.7\<close> (the double
  \<open>3152519739159347 / 2 ^ 52\<close>) and ten samples, and for the decay \<open>0.03\<close> and \<open>44100\<close>
  samples, line 86 yields \<open>7\<close> and \<open>1323\<close>, one more than the floor of the exact
  product.\<close>

lemma round_half_even_le: "y \<le> of_int n \<Longrightarrow> round_half_even y \<le> n"
proof -
  assume a: "y \<le> of_int n"
  have f: "\<lfloor>y\<rfloor> \<le> n" using a by (simp add: floor_le_iff)
  show ?thesis
  proof (cases "y = of_int \<lfloor>y\<rfloor>")
    case True
    then have "y - of_int \<lfloor>y\<rfloor> < 1 / 2" by simp
    then show ?thesis using f by (simp add: round_half_even_def Let_def)
  next
    case False
    have "of_int \<lfloor>y\<rfloor> \<le> y" by (rule of_int_floor_le)
    with False have "real_of_int \<lfloor>y\<rfloor> < y" by linarith
    with a have "real_of_int \<lfloor>y\<rfloor> < of_int n" by linarith
    then have "\<lfloor>y\<rfloor> < n" by simp
    then show ?thesis by (simp add: round_half_even_def Let_def)
  qed
qed

lemma round_half_even_ge: "of_int n \<le> y \<Longrightarrow> n \<le> round_half_even y"
proof -
  assume "of_int n \<le> y"
  then have "n \<le> \<lfloor>y\<rfloor>" by (simp add: le_floor_iff)
  then show ?thesis by (simp add: round_half_even_def Let_def)
qed

lemma binade_le: "\<bar>x\<bar> < 2 ^ 53 \<Longrightarrow> binade x \<le> 52"
proof (cases "1 \<le> \<bar>x\<bar>")
  case True
  assume "\<bar>x\<bar> < 2 ^ 53"
  then have "\<lfloor>\<bar>x\<bar>\<rfloor> < 2 ^ 53" by (simp add: floor_less_iff)
  then have "bitlen \<lfloor>\<bar>x\<bar>\<rfloor> \<le> 53" by (simp add: bitlen_le_iff_power)
  then show ?thesis using True by (simp add: binade_def)
next
  case False
  have "0 \<le> bitlen (\<lceil>1 / \<bar>x\<bar>\<rceil> - 1)" by (rule bitlen_nonneg)
  then show ?thesis using False by (simp add: binade_def)
qed

lemma double_scaled:
  assumes "\<bar>x\<bar> < 2 ^ 53" and "j = nat (52 - max (binade x) (- 1022))"
  shows "double x = of_int (round_half_even (x * 2 ^ j)) / 2 ^ j"
proof -
  let ?k = "max (binade x) (- 1022) - 52"
  have k: "?k \<le> 0" using binade_le[OF assms(1)] by simp
  have j: "j = nat (- ?k)" using assms(2) by simp
  have q: "power_int (2::real) ?k = 1 / 2 ^ j"
  proof (cases "?k = 0")
    case True
    then show ?thesis by (simp add: j)
  next
    case False
    with k have "\<not> 0 \<le> ?k" by simp
    then show ?thesis unfolding power_int_def j by (simp add: power_one_over inverse_eq_divide)
  qed
  have "double x = of_int (round_half_even (x / (1 / 2 ^ j))) * (1 / 2 ^ j)"
    using assms(1) unfolding double_def Let_def q by simp
  then show ?thesis by simp
qed

lemma double_le_int: "x \<le> of_int n \<Longrightarrow> double x \<le> of_int n"
proof (cases "\<bar>x\<bar> < 2 ^ 53")
  case False
  assume "x \<le> of_int n"
  then show ?thesis using False by (simp add: double_def)
next
  case True
  assume a: "x \<le> of_int n"
  define j where "j = nat (52 - max (binade x) (- 1022))"
  have d: "double x = of_int (round_half_even (x * 2 ^ j)) / 2 ^ j"
    using True j_def by (rule double_scaled)
  have "x * 2 ^ j \<le> of_int (n * 2 ^ j)" using a by simp
  then have "round_half_even (x * 2 ^ j) \<le> n * 2 ^ j" by (rule round_half_even_le)
  then have "real_of_int (round_half_even (x * 2 ^ j)) \<le> real_of_int (n * 2 ^ j)"
    by (simp only: of_int_le_iff)
  then show ?thesis unfolding d by (simp add: field_simps)
qed

lemma double_ge_int: "of_int n \<le> x \<Longrightarrow> of_int n \<le> double x"
proof (cases "\<bar>x\<bar> < 2 ^ 53")
  case False
  assume "of_int n \<le> x"
  then show ?thesis using False by (simp add: double_def)
next
  case True
  assume a: "of_int n \<le> x"
  define j where "j = nat (52 - max (binade x) (- 1022))"
  have d: "double x = of_int (round_half_even (x * 2 ^ j)) / 2 ^ j"
    using True j_def by (rule double_scaled)
  have "of_int (n * 2 ^ j) \<le> x * 2 ^ j" using a by simp
  then have "n * 2 ^ j \<le> round_half_even (x * 2 ^ j)" by (rule round_half_even_ge)
  then have "real_of_int (n * 2 ^ j) \<le> real_of_int (round_half_even (x * 2 ^ j))"
    by (simp only: of_int_le_iff)
  then show ?thesis unfolding d by (simp add: field_simps)
qed

lemma double_of_int: "double (of_int n) = of_int n"
  using double_le_int[of "of_int n" n] double_ge_int[of n "of_int n"] by simp

lemma double_of_nat: "double (real n) = real n"
  using double_of_int[of "int n"] by simp

lemma double_nonneg: "0 \<le> x \<Longrightarrow> 0 \<le> double x"
  using double_ge_int[of 0 x] by simp

lemma double_literal: "double 0.020 = 5764607523034235 / 2 ^ 58"
  by code_simp

lemma fstart_rounds_the_product:
  "fstart (3152519739159347 / 2 ^ 52) 10 = 7"
  "\<lfloor>3152519739159347 / 2 ^ 52 * real 10\<rfloor> = (6::int)"
  by code_simp+

lemma fstart_rounds_the_product_44100:
  "fstart (double 0.03) 44100 = 1323"
  "\<lfloor>double 0.03 * real 44100\<rfloor> = (1322::int)"
proof -
  have "py_int (double (double 0.03 * 44100)) = 1323" by code_simp
  then show "fstart (double 0.03) 44100 = 1323" by (simp add: fstart_def)
  have "\<lfloor>double 0.03 * 44100\<rfloor> = (1322::int)" by code_simp
  then show "\<lfloor>double 0.03 * real 44100\<rfloor> = (1322::int)" by simp
qed

lemma fixed_fade_samples:
  "py_int (double (double 0.020 * real 100)) = 2"
  "py_int (double (double 0.020 * real 44100)) = 882"
proof -
  have "py_int (double (double 0.020 * 100)) = 2" by code_simp
  then show "py_int (double (double 0.020 * real 100)) = 2" by simp
  have "py_int (double (double 0.020 * 44100)) = 882" by code_simp
  then show "py_int (double (double 0.020 * real 44100)) = 882" by simp
qed

lemma fstart_nonneg: "0 \<le> d \<Longrightarrow> fstart d L = \<lfloor>double (d * real L)\<rfloor>"
proof -
  assume "0 \<le> d"
  then have "0 \<le> d * real L" by simp
  then have "\<not> double (d * real L) < 0" using double_nonneg[of "d * real L"] by simp
  then show ?thesis by (simp add: fstart_def py_int_def)
qed

lemma fixed_nonneg:
  "py_int (double (double 0.020 * real sr)) = \<lfloor>double (double 0.020 * real sr)\<rfloor> \<and>
   0 \<le> py_int (double (double 0.020 * real sr))"
proof -
  have "0 \<le> double 0.020" by (rule double_nonneg) simp
  then have "0 \<le> double 0.020 * real sr" by simp
  then have "0 \<le> double (double 0.020 * real sr)" by (rule double_nonneg)
  then show ?thesis by (simp add: py_int_def)
qed

lemma has_shape2_nrows: "has_shape2 n c a \<Longrightarrow> 0 < c \<Longrightarrow> nrows a = n"
  by (cases a) (auto simp: has_shape2_def nrows_def)

lemma has_shape2_nth: "has_shape2 n c a \<Longrightarrow> i < c \<Longrightarrow> length (a ! i) = n"
  by (auto simp: has_shape2_def list_all_length)

lemma has_shape2_iff: "has_shape2 n c a \<longleftrightarrow> length a = c \<and> (\<forall>i<c. length (a ! i) = n)"
  by (auto simp: has_shape2_def list_all_length)



lemma bidx_less: "i < n \<Longrightarrow> bidx n i = i"
  by (simp add: bidx_def)






lemma fstart_one: "fstart 1 L = int L"
  by (simp add: fstart_def py_int_def double_of_nat)


lemma fstop_one: "fstop 1 sr L = int L"
proof -
  have "0 \<le> py_int (double (double 0.020 * real sr))" using fixed_nonneg[of sr] by blast
  then show ?thesis unfolding fstop_def fstart_one by linarith
qed

lemma flen_one: "flen 1 sr L = 0"
  by (simp add: flen_def fstart_one fstop_one)

lemma fstart_bounds:
  assumes "0 \<le> d" "d \<le> 1" shows "0 \<le> fstart d L \<and> fstart d L \<le> int L"
proof -
  have "d * real L \<le> real_of_int (int L)" using assms by (simp add: mult_left_le_one_le)
  then have "double (d * real L) \<le> real_of_int (int L)" by (rule double_le_int)
  then have "\<lfloor>double (d * real L)\<rfloor> \<le> int L" by (simp add: floor_le_iff)
  moreover have "0 \<le> d * real L" using assms by simp
  then have "0 \<le> double (d * real L)" by (rule double_nonneg)
  then have "0 \<le> \<lfloor>double (d * real L)\<rfloor>" by simp
  ultimately show ?thesis using assms by (simp add: fstart_nonneg)
qed

lemma pad_length: "0 < (B::nat) \<Longrightarrow> L + (B - L mod B) = (L div B + 1) * B"
proof -
  assume "0 < B"
  then have "L mod B < B" by simp
  then have "L + (B - L mod B) = (L - L mod B) + B" by simp
  also have "L - L mod B = L div B * B" by (simp add: minus_mod_eq_div_mult)
  finally show ?thesis by simp
qed

lemma padded_stereo:
  assumes "0 < B" "0 < c" "has_shape2 L c cs"
  shows "padded B (A2 cs) = Inr (map (\<lambda>ch. ch @ replicate (B - L mod B) 0) cs)"
  using assms by (simp add: padded_def has_shape2_nrows)

lemma padded_shape:
  assumes "has_shape2 L c cs"
  shows "has_shape2 (L + p) c (map (\<lambda>ch. ch @ replicate p (0::real)) cs)"
  using assms by (simp add: has_shape2_iff)

lemma nfilters_padded:
  assumes "0 < B" "0 < c" "has_shape2 ((k + 1) * B) c hp"
  shows "nfilters B hp = k + 1"
  using assms by (simp add: nfilters_def has_shape2_nrows)

lemma chopped_shape:
  assumes "0 < B" "0 < c" "has_shape2 (K * B) c hp"
  shows "has_shape3 (2 * B) c K (chopped B hp)"
proof -
  have n: "nfilters B hp = K" using assms by (simp add: nfilters_def has_shape2_nrows)
  have "has_shape2 (2 * B) c (map (\<lambda>ch. take B (drop (n * B) ch) @ replicate B 0) hp)"
    if "n < K" for n
  proof -
    have "n * B + B \<le> K * B" using that
      by (metis Suc_leI mult_Suc mult_le_mono1 add.commute)
    then show ?thesis using assms(3) by (auto simp: has_shape2_iff min_def)
  qed
  then show ?thesis
    by (simp add: chopped_def n has_shape3_def list_all_iff)
qed

lemma chopped_last_zero:
  assumes "0 < B" "0 < c" "has_shape2 L c cs" "L mod B = 0"
  shows "last (chopped B (map (\<lambda>ch. ch @ replicate B 0) cs)) = replicate c (replicate (2 * B) 0)"
proof -
  let ?hp = "map (\<lambda>ch. ch @ replicate B (0::real)) cs"
  have sh: "has_shape2 (L + B) c ?hp" using assms(3) by (rule padded_shape)
  have dL: "L div B * B = L" using assms(4) by (simp add: mod_eq_0_iff_dvd)
  have LB: "L + B = (L div B + 1) * B" using dL by simp
  have n: "nfilters B ?hp = L div B + 1"
    using nfilters_padded[OF assms(1,2), of "L div B" ?hp] sh LB by simp
  have z: "replicate B (0::real) @ replicate B 0 = replicate (2 * B) 0"
    by (simp add: replicate_add[symmetric] mult_2)
  have "map (\<lambda>ch. take B (drop L ch) @ replicate B 0) ?hp
          = map (\<lambda>ch. replicate (2 * B) 0) cs"
    using assms(3) z by (simp add: has_shape2_def list_all_iff)
  also have "\<dots> = replicate c (replicate (2 * B) 0)"
    using assms(3) by (simp add: map_replicate_const has_shape2_def)
  finally have "map (\<lambda>ch. take B (drop L ch) @ replicate B 0) ?hp = replicate c (replicate (2 * B) 0)" .
  then show ?thesis
    by (simp add: chopped_def n dL)
qed

lemma length_fft [simp]: "length (fft a) = length a"
  by (simp add: fft_def)

lemma length_ifft [simp]: "length (ifft a) = length a"
  by (simp add: ifft_def)

lemma sum_list_all_zero:
  "(\<And>x. x \<in> set xs \<Longrightarrow> f x = (0::'a::monoid_add)) \<Longrightarrow> (\<Sum>x\<leftarrow>xs. f x) = 0"
  by (induction xs) auto

lemma fft_zero: "fft (replicate n 0) = replicate n 0"
proof -
  have "(\<Sum>m\<leftarrow>[0..<n]. replicate n (0::complex) ! m
            * cis (- 2 * pi * real m * real k / real n)) = 0" for k
    by (rule sum_list_all_zero) auto
  then show ?thesis
    by (simp add: fft_def map_replicate_const)
qed

lemma slice_index_le: "slice_index n i \<le> n"
  unfolding slice_index_def by auto

lemma rect_A2: "rect (A2 cs) \<longleftrightarrow> 0 < length cs \<and> has_shape2 (nrows cs) (length cs) cs"
  by (auto simp: rect_def has_shape2_def)

lemma apply_fade_shape:
  assumes "apply_fade a b g (A2 cs) = Inr h1" "has_shape2 L c cs" "0 < c"
  shows "\<exists>cs1. h1 = A2 cs1 \<and> has_shape2 L c cs1"
proof -
  have n: "nrows cs = L" using assms(2,3) by (rule has_shape2_nrows)
  let ?i0 = "slice_index L a" and ?m = "slice_index L b - slice_index L a"
  let ?f = "\<lambda>ch. take ?i0 ch @ map (\<lambda>i. ch ! (?i0 + i) * g ! bidx (length g) i) [0..<?m]
                  @ drop (?i0 + ?m) ch"
  have h1: "h1 = A2 (map ?f cs)"
    using assms(1) by (simp add: apply_fade_def n Let_def split: if_splits)
  have le: "?i0 + ?m \<le> L" "?i0 \<le> L"
    using slice_index_le[of L a] slice_index_le[of L b] by linarith+
  have "length (?f ch) = L" if "length ch = L" for ch
    using that le by simp
  then have "\<forall>ch\<in>set cs. length (?f ch) = L"
    using assms(2) by (auto simp: has_shape2_def list_all_iff)
  then have "has_shape2 L c (map ?f cs)"
    using assms(2) by (simp add: has_shape2_def list_all_iff)
  then show ?thesis using h1 by blast
qed

lemma cut_shape:
  assumes "has_shape2 L c cs"
  shows "\<exists>L1 cs1. cut b (A2 cs) = A2 cs1 \<and> has_shape2 L1 c cs1"
proof -
  have "has_shape2 (min L (slice_index (nrows cs) b)) c (map (take (slice_index (nrows cs) b)) cs)"
    using assms by (simp add: has_shape2_iff)
  then show ?thesis by (auto simp: cut_def)
qed

lemma shaped_shape:
  assumes "shaped d sr (A2 cs) = Inr h1" "has_shape2 L c cs" "0 < c"
  shows "\<exists>L1 cs1. h1 = A2 cs1 \<and> has_shape2 L1 c cs1"
proof (cases "flen d sr (shape0 (A2 cs)) > 0")
  case False
  then have "h1 = A2 cs" using assms(1) by (simp add: shaped_def)
  then show ?thesis using assms(2) by blast
next
  case True
  then obtain h2 where a: "apply_fade (fstart d (shape0 (A2 cs))) (fstop d sr (shape0 (A2 cs)))
        (fade (flen d sr (shape0 (A2 cs)))) (A2 cs) = Inr h2"
    and c: "h1 = cut (fstop d sr (shape0 (A2 cs))) h2"
    using assms(1) by (auto simp: shaped_def Let_def split: sum.splits)
  from apply_fade_shape[OF a assms(2,3)] obtain cs2 where "h2 = A2 cs2" "has_shape2 L c cs2"
    by blast
  then show ?thesis using c cut_shape[of L c cs2] by auto
qed

lemma shaped_A1: "shaped d sr (A1 v) = Inr h1 \<Longrightarrow> h1 = A1 v"
  by (auto simp: shaped_def apply_fade_def Let_def split: if_splits)

lemma padded_Inr:
  assumes "padded B h1 = Inr hp"
  shows "0 < B \<and> (\<exists>cs. h1 = A2 cs \<and> hp = map (\<lambda>ch. ch @ replicate (B - nrows cs mod B) 0) cs)"
  using assms by (cases h1) (auto simp: padded_def split: if_splits)

lemma update_Inr:
  assumes "update s = Inr s'"
  shows "\<exists>h0 h1 hp. impulses s (type_value (parameters s)) = Some h0 \<and>
           shaped (decay (parameters s)) (sample_rate s) h0 = Inr h1 \<and>
           padded (block_size s) h1 = Inr hp \<and>
           s' = s\<lparr>h := chopped (block_size s) hp, h_new := chopped (block_size s) hp,
                  H := map (map (\<lambda>c. fft (map complex_of_real c))) (chopped (block_size s) hp),
                  X := map (map (\<lambda>c. fft (map complex_of_real (map (\<lambda>_. 0) c))))
                         (chopped (block_size s) hp),
                  overlap := replicate (length hp) (replicate (block_size s) 0)\<rparr>"
  using assms by (auto simp: update_def Let_def split: option.splits sum.splits)

lemma has_shape3_map:
  assumes "has_shape3 n c K a" "\<And>ch. length ch = n \<Longrightarrow> length (f ch) = m"
  shows "has_shape3 m c K (map (map f) a)"
  using assms by (auto simp: has_shape3_def has_shape2_def list_all_iff)

lemma has_shape3_const:
  assumes "has_shape3 n c K a"
  shows "map (map (\<lambda>ch. f (length ch))) a = replicate K (replicate c (f n))"
proof -
  have "map (\<lambda>ch. f (length ch)) p = replicate c (f n)" if "p \<in> set a" for p
  proof -
    have "length p = c" "\<forall>ch\<in>set p. length ch = n"
      using assms that by (auto simp: has_shape3_def has_shape2_def list_all_iff)
    then have "map (\<lambda>ch. f (length ch)) p = map (\<lambda>ch. f n) p" by simp
    then show ?thesis using \<open>length p = c\<close> by (simp add: map_replicate_const)
  qed
  then have "map (map (\<lambda>ch. f (length ch))) a = map (\<lambda>p. replicate c (f n)) a" by simp
  then show ?thesis using assms by (simp add: map_replicate_const has_shape3_def)
qed

lemma update_shapes:
  assumes "update s = Inr s'" "impulse_ok s"
  shows "\<exists>c K. 0 < block_size s \<and> 0 < c \<and> 0 < K \<and>
           has_shape3 (2 * block_size s) c K (h s') \<and>
           h_new s' = h s' \<and>
           H s' = map (map (\<lambda>ch. fft (map complex_of_real ch))) (h s') \<and>
           has_shape3 (2 * block_size s) c K (H s') \<and>
           X s' = replicate K (replicate c (fft (replicate (2 * block_size s) 0))) \<and>
           overlap s' = replicate c (replicate (block_size s) 0) \<and>
           s' = s\<lparr>h := h s', h_new := h_new s', H := H s', X := X s', overlap := overlap s'\<rparr>"
proof -
  let ?B = "block_size s"
  from update_Inr[OF assms(1)] obtain h0 h1 hp where
    i: "impulses s (type_value (parameters s)) = Some h0" and
    sh: "shaped (decay (parameters s)) (sample_rate s) h0 = Inr h1" and
    pd: "padded ?B h1 = Inr hp" and
    s': "s' = s\<lparr>h := chopped ?B hp, h_new := chopped ?B hp,
                  H := map (map (\<lambda>c. fft (map complex_of_real c))) (chopped ?B hp),
                  X := map (map (\<lambda>c. fft (map complex_of_real (map (\<lambda>_. 0) c))))
                         (chopped ?B hp),
                  overlap := replicate (length hp) (replicate ?B 0)\<rparr>"
    by blast
  from padded_Inr[OF pd] obtain cs where B: "0 < ?B" and h1: "h1 = A2 cs"
    and hp: "hp = map (\<lambda>ch. ch @ replicate (?B - nrows cs mod ?B) 0) cs" by blast
  obtain cs0 where h0: "h0 = A2 cs0"
    using sh h1 shaped_A1 by (cases h0) auto
  have r0: "0 < length cs0" "has_shape2 (nrows cs0) (length cs0) cs0"
    using assms(2) i h0 by (simp_all add: impulse_ok_def rect_A2)
  from shaped_shape[OF sh[unfolded h0] r0(2,1)] h1 obtain L where
    cs: "has_shape2 L (length cs0) cs" by auto
  let ?c = "length cs0" and ?K = "L div ?B + 1"
  have n: "nrows cs = L" using cs r0(1) by (rule has_shape2_nrows)
  have "has_shape2 (L + (?B - L mod ?B)) ?c hp"
    unfolding hp n using cs by (rule padded_shape)
  then have hps: "has_shape2 (?K * ?B) ?c hp" using pad_length[OF B, of L] by simp
  have c3: "has_shape3 (2 * ?B) ?c ?K (chopped ?B hp)"
    using chopped_shape[OF B r0(1) hps] .
  have H3: "has_shape3 (2 * ?B) ?c ?K (map (map (\<lambda>c. fft (map complex_of_real c))) (chopped ?B hp))"
    using c3 by (rule has_shape3_map) simp
  have "map (map (\<lambda>c. fft (map complex_of_real (map (\<lambda>_. 0) c)))) (chopped ?B hp)
      = map (map (\<lambda>c. fft (replicate (length c) 0))) (chopped ?B hp)"
    by (simp add: map_replicate_const)
  also have "\<dots> = replicate ?K (replicate ?c (fft (replicate (2 * ?B) 0)))"
    using has_shape3_const[OF c3, of "\<lambda>n. fft (replicate n 0)"] .
  finally have X3: "map (map (\<lambda>c. fft (map complex_of_real (map (\<lambda>_. 0) c)))) (chopped ?B hp)
      = replicate ?K (replicate ?c (fft (replicate (2 * ?B) 0)))" .
  have lhp: "length hp = ?c" using hps by (simp add: has_shape2_def)
  show ?thesis
    apply (rule exI[of _ ?c], rule exI[of _ ?K])
    using B r0(1) c3 H3 X3 lhp by (simp add: s')
qed

lemma has_shape3_nth: "has_shape3 n c K a \<Longrightarrow> k < K \<Longrightarrow> has_shape2 n c (a ! k)"
  by (auto simp: has_shape3_def list_all_length)

lemma has_shape3_ncols3: "has_shape3 n c K a \<Longrightarrow> 0 < K \<Longrightarrow> ncols3 a = c"
  by (cases a) (auto simp: has_shape3_def has_shape2_def ncols3_def)

lemma has_shape3_nrows3: "has_shape3 n c K a \<Longrightarrow> 0 < K \<Longrightarrow> 0 < c \<Longrightarrow> nrows3 a = n"
  by (cases a) (auto simp: has_shape3_def nrows3_def has_shape2_nrows)

lemma has_shape2_table:
  "has_shape2 n c (map (\<lambda>ci. map (f ci) [0..<n]) [0..<c])"
  by (simp add: has_shape2_iff)

lemma broadcast_same:
  assumes "has_shape2 n c v"
  shows "map (\<lambda>ci. map (\<lambda>i. v ! bidx c ci ! bidx n i) [0..<n]) [0..<c] = v"
proof (rule nth_equalityI)
  show "length (map (\<lambda>ci. map (\<lambda>i. v ! bidx c ci ! bidx n i) [0..<n]) [0..<c]) = length v"
    using assms by (simp add: has_shape2_def)
next
  fix ci assume "ci < length (map (\<lambda>ci. map (\<lambda>i. v ! bidx c ci ! bidx n i) [0..<n]) [0..<c])"
  then have ci: "ci < c" by simp
  then have l: "length (v ! ci) = n" using assms by (simp add: has_shape2_iff)
  have "map (\<lambda>i. v ! ci ! bidx n i) [0..<n] = v ! ci"
    by (rule nth_equalityI) (simp_all add: l bidx_less)
  then show "map (\<lambda>ci. map (\<lambda>i. v ! bidx c ci ! bidx n i) [0..<n]) [0..<c] ! ci = v ! ci"
    using ci by (simp add: bidx_less)
qed

lemma bdim_same: "bdim a a = Some a"
  by (simp add: bdim_def)

lemma bop2_same:
  assumes "has_shape2 n c a" "has_shape2 n c b" "0 < c"
  shows "bop2 f a b = Inr (map (\<lambda>ci. map (\<lambda>i. f (a ! ci ! i) (b ! ci ! i)) [0..<n]) [0..<c])"
proof -
  have l: "length a = c" "length b = c" "nrows a = n" "nrows b = n"
    using assms by (simp_all add: has_shape2_nrows) (simp_all add: has_shape2_def)
  show ?thesis
    by (simp add: bop2_def l bdim_same bidx_less cong: map_cong)
qed

lemma mul_sum_same:
  assumes "has_shape3 n c K xs" "has_shape3 n c K hs" "0 < c" "0 < K"
  shows "mul_sum xs hs =
           Inr (map (\<lambda>ci. map (\<lambda>i. \<Sum>k\<leftarrow>[0..<K]. xs ! k ! ci ! i * hs ! k ! ci ! i) [0..<n])
                  [0..<c])"
proof -
  have l: "length xs = K" "length hs = K" using assms by (simp_all add: has_shape3_def)
  have c: "ncols3 xs = c" "ncols3 hs = c" using assms by (simp_all add: has_shape3_ncols3)
  have r: "nrows3 xs = n" "nrows3 hs = n" using assms by (simp_all add: has_shape3_nrows3)
  have s: "(\<Sum>k\<leftarrow>[0..<K]. xs ! bidx K k ! ci ! i * hs ! bidx K k ! ci ! i)
         = (\<Sum>k\<leftarrow>[0..<K]. xs ! k ! ci ! i * hs ! k ! ci ! i)" for ci i
    by (rule arg_cong[where f = sum_list]) (simp add: bidx_less)
  show ?thesis
    by (simp add: mul_sum_def l c r bdim_same bidx_less s cong: map_cong)
qed

lemma roll_nonempty: "xs \<noteq> [] \<Longrightarrow> roll xs = last xs # butlast xs"
  by (simp add: roll_def)

lemma has_shape3_last: "has_shape3 n c K a \<Longrightarrow> 0 < K \<Longrightarrow> has_shape2 n c (last a)"
  by (cases a rule: rev_cases) (auto simp: has_shape3_def)

lemma has_shape3_push:
  assumes "has_shape3 n c K a" "0 < K" "has_shape2 n c v"
  shows "has_shape3 n c K (v # butlast a)"
  using assms by (cases a rule: rev_cases) (auto simp: has_shape3_def)

lemma assign_slot0_same:
  assumes "has_shape3 n c K a" "0 < K" "0 < c" "has_shape2 n c v"
  shows "assign_slot0 (roll a) v = Inr (v # butlast a)"
proof -
  have ne: "a \<noteq> []" using assms(1,2) by (auto simp: has_shape3_def)
  have t: "has_shape2 n c (last a)" using assms(1,2) by (rule has_shape3_last)
  have l: "length (last a) = c" "nrows (last a) = n" "length v = c" "nrows v = n"
    using t assms(3,4) by (simp_all add: has_shape2_nrows) (simp_all add: has_shape2_def)
  show ?thesis
    by (simp add: roll_nonempty[OF ne] assign_slot0_def l broadcast_same[OF assms(4)])
qed

lemma process_run:
  assumes nb: "\<not> bypass (parameters s)"
    and B: "block_size s = B" "0 < B" and c: "0 < c" and K: "0 < K"
    and Xs: "has_shape3 (2 * B) c K (X s)"
    and Hs: "has_shape3 (2 * B) c K (H s)"
    and os: "has_shape2 B c (overlap s)"
    and xs: "has_shape2 B c (stereo x)"
  shows "\<exists>out ov Y.
           process s x =
             Inr (A2 out,
                  s\<lparr>X := map (\<lambda>ch. fft (map complex_of_real (ch @ replicate B 0))) (stereo x)
                           # butlast (X s),
                    overlap := ov\<rparr>) \<and>
           has_shape2 (2 * B) c Y \<and>
           (\<forall>ci<c. \<forall>i<2 * B. Y ! ci ! i =
              (\<Sum>k\<leftarrow>[0..<K].
                 (map (\<lambda>ch. fft (map complex_of_real (ch @ replicate B 0))) (stereo x)
                    # butlast (X s)) ! k ! ci ! i * H s ! k ! ci ! i)) \<and>
           has_shape2 B c out \<and> has_shape2 B c ov \<and>
           (\<forall>ci<c. \<forall>i<B.
              out ! ci ! i = (Re (ifft (Y ! ci) ! i) + overlap s ! ci ! i) * wet_mix (parameters s)
                             + stereo x ! ci ! i * dry_mix (parameters s) \<and>
              ov ! ci ! i = Re (ifft (Y ! ci) ! (B + i)))"
proof -
  let ?xp = "map (\<lambda>ch. ch @ replicate B 0) (stereo x)"
  let ?fx = "map (\<lambda>ch. fft (map complex_of_real (ch @ replicate B 0))) (stereo x)"
  let ?X2 = "?fx # butlast (X s)"
  let ?Y = "map (\<lambda>ci. map (\<lambda>i. \<Sum>k\<leftarrow>[0..<K]. ?X2 ! k ! ci ! i * H s ! k ! ci ! i) [0..<2 * B])
              [0..<c]"
  let ?y = "map (map Re) (map ifft ?Y)"
  let ?wet = "map (\<lambda>ci. map (\<lambda>i. map (take B) ?y ! ci ! i + overlap s ! ci ! i) [0..<B]) [0..<c]"
  let ?wet' = "map (map (\<lambda>v. v * wet_mix (parameters s))) ?wet"
  let ?dry' = "map (map (\<lambda>v. v * dry_mix (parameters s))) (map (take B) ?xp)"
  let ?out = "map (\<lambda>ci. map (\<lambda>i. ?wet' ! ci ! i + ?dry' ! ci ! i) [0..<B]) [0..<c]"
  let ?ov = "map (drop B) ?y"
  have lx: "length (stereo x) = c" and lch: "\<And>ci. ci < c \<Longrightarrow> length (stereo x ! ci) = B"
    using xs by (simp_all add: has_shape2_iff)
  have xp: "has_shape2 (2 * B) c ?xp" using xs by (simp add: has_shape2_iff)
  have nxp: "nrows ?xp \<noteq> 0" using has_shape2_nrows[OF xp c] B(2) by simp
  have 1: "fft_axis0 ?xp = Inr ?fx" using nxp by (simp add: fft_axis0_def o_def)
  have fx: "has_shape2 (2 * B) c ?fx" using xs by (simp add: has_shape2_iff)
  have 2: "assign_slot0 (roll (X s)) ?fx = Inr ?X2"
    using assign_slot0_same[OF Xs K c fx] .
  have X2: "has_shape3 (2 * B) c K ?X2" using has_shape3_push[OF Xs K fx] .
  have 3: "mul_sum ?X2 (H s) = Inr ?Y" using mul_sum_same[OF X2 Hs c K] .
  have Y: "has_shape2 (2 * B) c ?Y" by (rule has_shape2_table)
  have nY: "nrows ?Y \<noteq> 0" using has_shape2_nrows[OF Y c] B(2) by simp
  have 4: "ifft_axis0 ?Y = Inr (map ifft ?Y)" using nY by (simp add: ifft_axis0_def)
  have y: "has_shape2 (2 * B) c ?y" by (simp add: has_shape2_iff)
  have ty: "has_shape2 B c (map (take B) ?y)" by (simp add: has_shape2_iff)
  have 5: "bop2 (+) (map (take B) ?y) (overlap s) = Inr ?wet"
    using bop2_same[OF ty os c, of "(+)"] .
  have wet': "has_shape2 B c ?wet'" by (simp add: has_shape2_iff)
  have dry': "has_shape2 B c ?dry'" using xs by (simp add: has_shape2_iff)
  have 6: "bop2 (+) ?wet' ?dry' = Inr ?out"
    using bop2_same[OF wet' dry' c, of "(+)"] .
  have p: "process s x = Inr (A2 ?out, s\<lparr>X := ?X2, overlap := ?ov\<rparr>)"
    using nb 1 2 3 4 5 6 by (simp add: process_def B(1) Let_def)
  have out: "has_shape2 B c ?out" by (rule has_shape2_table)
  have ov: "has_shape2 B c ?ov" by (simp add: has_shape2_iff)
  have Yel: "\<forall>ci<c. \<forall>i<2 * B. ?Y ! ci ! i =
              (\<Sum>k\<leftarrow>[0..<K]. ?X2 ! k ! ci ! i * H s ! k ! ci ! i)"
    by simp
  have el: "\<forall>ci<c. \<forall>i<B.
              ?out ! ci ! i = (Re (ifft (?Y ! ci) ! i) + overlap s ! ci ! i) * wet_mix (parameters s)
                             + stereo x ! ci ! i * dry_mix (parameters s) \<and>
              ?ov ! ci ! i = Re (ifft (?Y ! ci) ! (B + i))"
    using lx lch by (simp add: nth_append)
  show ?thesis
    using p Y Yel out ov el by blast
qed

lemma update_ignores_history: "update (s\<lparr>X := Xa, overlap := oa\<rparr>) = update s"
  by (simp add: update_def Let_def split: option.splits sum.splits)

lemma has_shape3_replicate: "has_shape3 n c K (replicate K (replicate c (replicate n v)))"
  by (simp add: has_shape3_def has_shape2_def list_all_length)

lemma update_same_shape:
  assumes "update s = Inr s'" "impulse_ok s"
  shows "same_shape s'"
proof -
  from update_shapes[OF assms] obtain c K where
    k: "0 < block_size s" "0 < c" "0 < K" and
    H3: "has_shape3 (2 * block_size s) c K (H s')" and
    X3: "X s' = replicate K (replicate c (fft (replicate (2 * block_size s) 0)))"
    by blast
  have "has_shape3 (2 * block_size s) c K (X s')"
    unfolding X3 fft_zero by (rule has_shape3_replicate)
  moreover have "length (H s') = K" using H3 by (simp add: has_shape3_def)
  ultimately show ?thesis
    using H3 k by (simp add: same_shape_def has_shape3_ncols3 has_shape3_nrows3)
qed

lemma nrows_map_map: "nrows (map (map f) cs) = nrows cs"
  by (cases cs) (simp_all add: nrows_def)

lemma rect_scale: "rect dat \<Longrightarrow> rect (scale dat)"
  by (cases dat) (auto simp: rect_def scale_def nrows_map_map list_all_iff)

lemma files_ok_lookup:
  assumes "files_ok fs" "map_of src k = Some name" "fs name = Some (sr, dat)"
  shows "rect dat"
proof -
  have "(k, name) \<in> set src" using assms(2) by (rule map_of_SomeD)
  then show ?thesis using assms(1,3) by (auto simp: files_ok_def list_all_iff)
qed

lemma load_loop_rect:
  assumes "load_loop fs s opts = Inr s'" "files_ok fs"
    and "\<And>k a. impulses s k = Some a \<Longrightarrow> rect a"
  shows "(\<forall>k a. impulses s' k = Some a \<longrightarrow> rect a) \<and> parameters s' = parameters s \<and>
         block_size s' = block_size s \<and> sample_rate s' = sample_rate s"
  using assms
proof (induction opts arbitrary: s)
  case Nil
  then show ?case by auto
next
  case (Cons reverb rest)
  from Cons.prems(1) obtain name sr dat where
    n: "map_of src (type_value (parameters s)) = Some name" and
    f: "fs name = Some (sr, dat)" and
    r: "load_loop fs (s\<lparr>impulses := (impulses s)(reverb \<mapsto> scale dat)\<rparr>) rest = Inr s'"
    by (auto split: option.splits if_splits)
  have "rect (scale dat)" using files_ok_lookup[OF Cons.prems(2) n f] by (rule rect_scale)
  then have "\<And>k a. impulses (s\<lparr>impulses := (impulses s)(reverb \<mapsto> scale dat)\<rparr>) k = Some a
               \<Longrightarrow> rect a"
    using Cons.prems(3) by (auto split: if_splits)
  from Cons.IH[OF r Cons.prems(2) this] show ?case by simp
qed

lemma init_same_shape:
  assumes "init fs ps B sr = Inr t" "files_ok fs"
  shows "same_shape t"
proof -
  let ?s0 = "\<lparr>parameters = (case ps of None \<Rightarrow> default_parameters | Some p \<Rightarrow> p),
                block_size = B, sample_rate = sr, impulses = Map.empty,
                h = [], h_new = [], H = [], X = [], overlap = []\<rparr>"
  from assms(1) obtain s1 where l: "load fs ?s0 = Inr s1" and u: "update s1 = Inr t"
    by (auto simp: init_def Let_def split: sum.splits)
  have "\<forall>k a. impulses s1 k = Some a \<longrightarrow> rect a"
    using load_loop_rect[OF l[unfolded load_def] assms(2)] by simp
  then have "impulse_ok s1" by (auto simp: impulse_ok_def split: option.splits)
  with u show ?thesis by (rule update_same_shape)
qed

lemma has_shape3_roll: "has_shape3 n c K a \<Longrightarrow> has_shape3 n c K (roll a)"
  by (cases a rule: rev_cases) (auto simp: has_shape3_def roll_def)

lemma assign_slot0_shape:
  assumes "assign_slot0 a v = Inr a'" "has_shape3 n c K a"
  shows "has_shape3 n c K a'"
proof -
  from assms(1) obtain t rest where a: "a = t # rest" and
    a': "a' = map (\<lambda>ci. map (\<lambda>i. v ! bidx (length v) ci ! bidx (nrows v) i) [0..<nrows t])
                [0..<length t] # rest"
    by (cases a) (auto simp: assign_slot0_def split: if_splits)
  have t: "has_shape2 n c t" and rest: "list_all (has_shape2 n c) rest" and K: "length a = K"
    using assms(2) a by (auto simp: has_shape3_def)
  have "has_shape2 n c (map (\<lambda>ci. map (\<lambda>i. v ! bidx (length v) ci ! bidx (nrows v) i) [0..<nrows t])
                [0..<length t])"
  proof (cases "c = 0")
    case True
    then show ?thesis using t by (simp add: has_shape2_def)
  next
    case False
    then have "nrows t = n" "length t = c" using t by (simp_all add: has_shape2_nrows) (simp add: has_shape2_def)
    then show ?thesis by (simp add: has_shape2_iff)
  qed
  then show ?thesis using rest K a a' by (simp add: has_shape3_def)
qed

lemma process_Inr:
  assumes "process s x = Inr (out, s')"
  shows "(bypass (parameters s) \<and> out = x \<and> s' = s) \<or>
         (\<not> bypass (parameters s) \<and>
          (\<exists>fx X2 ov. assign_slot0 (roll (X s)) fx = Inr X2 \<and> s' = s\<lparr>X := X2, overlap := ov\<rparr>))"
  using assms by (auto simp: process_def Let_def split: if_splits sum.splits)

lemma process_same_shape:
  assumes "process s x = Inr (out, s')" "same_shape s"
  shows "same_shape s'"
proof -
  from process_Inr[OF assms(1)] show ?thesis
  proof
    assume "bypass (parameters s) \<and> out = x \<and> s' = s"
    then show ?thesis using assms(2) by simp
  next
    assume "\<not> bypass (parameters s) \<and>
          (\<exists>fx X2 ov. assign_slot0 (roll (X s)) fx = Inr X2 \<and> s' = s\<lparr>X := X2, overlap := ov\<rparr>)"
    then obtain fx X2 ov where a: "assign_slot0 (roll (X s)) fx = Inr X2"
      and s': "s' = s\<lparr>X := X2, overlap := ov\<rparr>" by blast
    have "has_shape3 (nrows3 (H s)) (ncols3 (H s)) (length (H s)) (roll (X s))"
      using assms(2) by (simp add: same_shape_def has_shape3_roll)
    from assign_slot0_shape[OF a this] show ?thesis
      using assms(2) by (simp add: same_shape_def s')
  qed
qed

lemma process_frame_aux:
  assumes "process s x = Inr (out, s')"
  shows "s' = s\<lparr>X := X s', overlap := overlap s'\<rparr>"
  using process_Inr[OF assms] by auto

lemma update_fresh: "\<exists>s'. update fresh = Inr s'"
  by (simp add: update_def fresh_def default_parameters_def shaped_def shape0_def nrows_def
        flen_one padded_def Let_def)

lemma load_rooms: "\<exists>s'. load rooms unloaded = Inr s' \<and>
    impulses s' ''hall'' = Some (A2 [[1 / 65536, 1 / 32768], [1 / 65536, 1 / 32768]])"
  by (simp add: load_def unloaded_def default_parameters_def src_def rooms_def scale_def
        scale_sample_def)

lemma init_rooms: "\<exists>t. init rooms None 2 44100 = Inr t"
  by (simp add: init_def load_def default_parameters_def src_def rooms_def scale_def
        update_def shaped_def shape0_def nrows_def
        flen_one padded_def Let_def)

lemma running_shapes:
  "\<not> bypass (parameters running)" "block_size running = 1"
  "has_shape3 (2 * 1) 2 2 (X running)" "has_shape3 (2 * 1) 2 2 (H running)"
  "has_shape2 1 2 (overlap running)" "has_shape2 1 2 (stereo (A1 [3]))"
  by (simp_all add: running_def default_parameters_def has_shape3_def has_shape2_def stereo_def)

lemma process_running: "\<exists>out u'. process running (A1 [3]) = Inr (out, u')"
  using process_run[OF running_shapes(1,2) _ _ _ running_shapes(3,4,5,6)] by auto

lemma files_ok_rooms: "files_ok rooms"
  by (simp add: files_ok_def src_def rooms_def rect_def nrows_def)

lemma same_shape_running: "same_shape running"
  by (simp add: same_shape_def running_def has_shape3_def has_shape2_def nrows3_def ncols3_def
        nrows_def)

lemma impulse_ok_fresh: "impulse_ok fresh"
  by (simp add: impulse_ok_def fresh_def default_parameters_def rect_def nrows_def)

lemma fft_3_0: "fft [3, 0] = [3, 3]"
  by (simp add: fft_def numeral_2_eq_2)

lemma ifft_3_3: "ifft [3, 3] = [3, 0]"
  by (simp add: ifft_def numeral_2_eq_2)

subsection \<open>Bypass\<close>

text \<open>C9. With \<^verbatim>\<open>bypass\<close> set, \<^verbatim>\<open>process\<close> returns its input block as it is,
  whatever the other parameters and the state are, and the state is left as it was.\<close>

theorem process_bypass:
  "bypass (parameters s) \<Longrightarrow> process s x = Inr (x, s)"
  by (simp add: process_def)

theorem process_bypass_witness:
  "bypass (parameters bypassed) \<and>
   process bypassed (A1 [1, 2, 3]) = Inr (A1 [1, 2, 3], bypassed)"
  using process_bypass[of bypassed "A1 [1, 2, 3]"]
  by (simp add: bypassed_def default_parameters_def)

subsection \<open>Shaping of the impulse\<close>



subsection \<open>Out-of-range parameters\<close>

text \<open>C7 as stated does not hold: \<^verbatim>\<open>update\<close> reads the decay as it is stored. With a
  decay of \<open>-1/2\<close> and an impulse of four samples the fade would start at \<open>-2\<close>, the slice
  \<^verbatim>\<open>h[-2:0]\<close> is empty, and multiplying it by the two gains raises.\<close>

theorem decay_not_clamped:
  "decay (parameters negative_decay) < 0 \<and>
   impulses negative_decay (type_value (parameters negative_decay))
     = Some (A2 [[1, 1, 1, 1], [1, 1, 1, 1]]) \<and>
   fstart (decay (parameters negative_decay)) 4 = - 2 \<and>
   \<not> (0 \<le> fstart (decay (parameters negative_decay)) 4) \<and>
   update negative_decay = Inl ValueError"
proof -
  let ?ones = "[[1, 1, 1, 1], [1, 1, 1, 1::real]]"
  have a: "fstart (- 1 / 2) 4 = - 2" by code_simp
  have b: "fstop (- 1 / 2) 100 4 = 0" by code_simp
  have n: "shape0 (A2 ?ones) = 4" by (simp add: shape0_def nrows_def)
  have f: "apply_fade (- 2) 0 (fade 2) (A2 ?ones) = Inl ValueError"
    by (simp add: apply_fade_def nrows_def slice_index_def fade_def)
  have s: "shaped (- 1 / 2) 100 (A2 ?ones) = Inl ValueError"
    unfolding shaped_def n Let_def flen_def a b using f by simp
  have p: "decay (parameters negative_decay) = - 1 / 2" "sample_rate negative_decay = 100"
    "impulses negative_decay (type_value (parameters negative_decay)) = Some (A2 ?ones)"
    by (simp_all add: negative_decay_def default_parameters_def)
  have u: "update negative_decay = Inl ValueError"
    unfolding update_def p using s by simp
  show ?thesis
    unfolding p using a u by simp
qed

text \<open>C7, amended. Nothing is clamped; for a decay that already lies between \<open>0\<close> and
  \<open>1\<close>, the start and the stop of the fade lie between \<open>0\<close> and the length of the
  impulse.\<close>

theorem fade_window_in_range:
  assumes "0 \<le> d" and "d \<le> 1"
  shows "0 \<le> fstart d L \<and> fstart d L \<le> fstop d sr L \<and> fstop d sr L \<le> int L"
proof -
  have "0 \<le> py_int (double (double 0.020 * real sr))" using fixed_nonneg[of sr] by blast
  then show ?thesis
    using fstart_bounds[OF assms, of L] unfolding fstop_def by linarith
qed

theorem fade_window_in_range_witness:
  "(0::real) \<le> 1/2 \<and> (1/2::real) \<le> 1 \<and>
   0 \<le> fstart (1/2) 4 \<and> fstart (1/2) 4 \<le> fstop (1/2) 100 4 \<and> fstop (1/2) 100 4 \<le> int 4"
  using fade_window_in_range[of "1/2" 4 100] by simp

subsection \<open>Padding and partitions\<close>

text \<open>C2. Let the shaped impulse have \<open>L\<close> samples in each of its channels and let the
  block size \<open>B\<close> be positive. \<^verbatim>\<open>update\<close> appends \<open>B - L mod B\<close> zeros to every
  channel; the padded length is a multiple of \<open>B\<close>; the number of filters is the padded
  length divided by \<open>B\<close>, which is \<open>L div B + 1\<close> in every case; when \<open>B\<close> divides \<open>L\<close> a
  whole block of zeros is appended and the last partition is zero throughout.\<close>

theorem padding_and_partition_count:
  assumes "block_size s = B" and "0 < B"
    and "impulses s (type_value (parameters s)) = Some h0"
    and "shaped (decay (parameters s)) (sample_rate s) h0 = Inr (A2 cs)"
    and "has_shape2 L c cs" and "0 < c"
  shows "\<exists>hp s'. padded B (A2 cs) = Inr hp \<and> update s = Inr s' \<and>
           hp = map (\<lambda>ch. ch @ replicate (B - L mod B) 0) cs \<and>
           has_shape2 (L + (B - L mod B)) c hp \<and>
           B dvd L + (B - L mod B) \<and>
           nfilters B hp = (L + (B - L mod B)) div B \<and>
           nfilters B hp = L div B + 1 \<and>
           h s' = chopped B hp \<and> length (h s') = nfilters B hp \<and>
           length (H s') = nfilters B hp \<and>
           (L mod B = 0 \<longrightarrow>
              B - L mod B = B \<and> last (h s') = replicate c (replicate (2 * B) 0))"
proof -
  let ?hp = "map (\<lambda>ch. ch @ replicate (B - L mod B) 0) cs"
  let ?s' = "s\<lparr>h := chopped B ?hp, h_new := chopped B ?hp,
                H := map (map (\<lambda>c. fft (map complex_of_real c))) (chopped B ?hp),
                X := map (map (\<lambda>c. fft (map complex_of_real (map (\<lambda>_. 0) c)))) (chopped B ?hp),
                overlap := replicate (length ?hp) (replicate B 0)\<rparr>"
  have p: "padded B (A2 cs) = Inr ?hp" using assms(2,6,5) by (rule padded_stereo)
  have u: "update s = Inr ?s'"
    using assms(1,3,4) p by (simp add: update_def Let_def)
  have sh: "has_shape2 (L + (B - L mod B)) c ?hp" using assms(5) by (rule padded_shape)
  have len: "L + (B - L mod B) = (L div B + 1) * B" using assms(2) by (rule pad_length)
  have dv: "B dvd L + (B - L mod B)" unfolding len by simp
  have n: "nfilters B ?hp = L div B + 1"
    using nfilters_padded[OF assms(2,6), of "L div B" ?hp] sh len by simp
  have n': "nfilters B ?hp = (L + (B - L mod B)) div B"
    using assms(2) n len by simp
  have lc: "length (chopped B ?hp) = nfilters B ?hp" by (simp add: chopped_def)
  have z: "last (chopped B ?hp) = replicate c (replicate (2 * B) 0)" if "L mod B = 0"
    using chopped_last_zero[OF assms(2,6,5) that] that by simp
  show ?thesis
    apply (rule exI[of _ ?hp], rule exI[of _ ?s'])
    using p u sh dv n n' lc z by simp
qed

theorem padding_and_partition_count_witness:
  "block_size fresh = 2 \<and> (0::nat) < 2 \<and>
   impulses fresh (type_value (parameters fresh)) = Some (A2 [[1, 2, 3, 4], [5, 6, 7, 8]]) \<and>
   shaped (decay (parameters fresh)) (sample_rate fresh) (A2 [[1, 2, 3, 4], [5, 6, 7, 8]])
     = Inr (A2 [[1, 2, 3, 4], [5, 6, 7, 8]]) \<and>
   has_shape2 4 2 [[1, 2, 3, 4], [5, 6, 7, 8::real]] \<and>
   (\<exists>hp s'. padded 2 (A2 [[1, 2, 3, 4], [5, 6, 7, 8]]) = Inr hp \<and> update fresh = Inr s' \<and>
      hp = [[1, 2, 3, 4, 0, 0], [5, 6, 7, 8, 0, 0]] \<and> nfilters 2 hp = 3 \<and>
      length (h s') = 3 \<and> last (h s') = [[0, 0, 0, 0], [0, 0, 0, 0]])"
proof -
  have 1: "block_size fresh = 2" by (simp add: fresh_def)
  have 2: "(0::nat) < 2" by simp
  have 3: "impulses fresh (type_value (parameters fresh)) = Some (A2 [[1, 2, 3, 4], [5, 6, 7, 8]])"
    by (simp add: fresh_def default_parameters_def)
  have 4: "shaped (decay (parameters fresh)) (sample_rate fresh) (A2 [[1, 2, 3, 4], [5, 6, 7, 8]])
     = Inr (A2 [[1, 2, 3, 4], [5, 6, 7, 8]])"
    by (simp add: fresh_def default_parameters_def shaped_def shape0_def nrows_def
        flen_one)
  have 5: "has_shape2 4 2 [[1, 2, 3, 4], [5, 6, 7, 8::real]]" by (simp add: has_shape2_def)
  from padding_and_partition_count[OF 1 2 3 4 5] obtain hp s' where
    r: "padded 2 (A2 [[1, 2, 3, 4], [5, 6, 7, 8]]) = Inr hp" "update fresh = Inr s'"
       "hp = map (\<lambda>ch. ch @ replicate (2 - 4 mod 2) 0) [[1, 2, 3, 4], [5, 6, 7, 8]]"
       "nfilters 2 hp = 4 div 2 + 1" "length (h s') = nfilters 2 hp"
       "4 mod 2 = (0::nat) \<longrightarrow> last (h s') = replicate 2 (replicate (2 * 2) 0)"
    by auto
  have e: "(2::nat) - 4 mod 2 = 2" by simp
  have e': "replicate 2 (0::real) = [0, 0]" by (simp add: numeral_2_eq_2)
  have a: "hp = [[1, 2, 3, 4, 0, 0], [5, 6, 7, 8, 0, 0]]"
    using r(3) unfolding e e' by simp
  have b: "nfilters 2 hp = 3" using r(4) by simp
  have c: "length (h s') = 3" using r(5) b by simp
  have m: "4 mod 2 = (0::nat)" by simp
  have e4: "replicate 2 (replicate (2 * 2) (0::real)) = [[0, 0, 0, 0], [0, 0, 0, 0]]"
    by (simp add: numeral_eq_Suc)
  have d: "last (h s') = [[0, 0, 0, 0], [0, 0, 0, 0]]"
    using r(6) m unfolding e4 by blast
  show ?thesis using 1 2 3 4 5 r(1,2) a b c d by blast
qed

subsection \<open>The state after \<^verbatim>\<open>update\<close>\<close>

text \<open>C5. After \<^verbatim>\<open>update\<close> the history holds, for every partition and channel of
  the new filters, the transform of a block of zeros, which is zero; the overlap holds
  \<open>block_size\<close> zeros for every channel; and neither depends on the history or the overlap
  that \<^verbatim>\<open>update\<close> found.\<close>

theorem update_resets_history:
  assumes "update s = Inr s'" and "impulse_ok s"
  shows "\<exists>c K. 0 < c \<and> 0 < K \<and>
           has_shape3 (2 * block_size s') c K (H s') \<and>
           X s' = replicate K (replicate c (fft (replicate (2 * block_size s') 0))) \<and>
           X s' = replicate K (replicate c (replicate (2 * block_size s') 0)) \<and>
           overlap s' = replicate c (replicate (block_size s') 0) \<and>
           update (s\<lparr>X := Xa, overlap := oa\<rparr>) = Inr s'"
proof -
  from update_shapes[OF assms] obtain c K where
    k: "0 < c" "0 < K" and
    H3: "has_shape3 (2 * block_size s) c K (H s')" and
    X3: "X s' = replicate K (replicate c (fft (replicate (2 * block_size s) 0)))" and
    o3: "overlap s' = replicate c (replicate (block_size s) 0)" and
    s': "s' = s\<lparr>h := h s', h_new := h_new s', H := H s', X := X s', overlap := overlap s'\<rparr>"
    by blast
  have B: "block_size s' = block_size s" by (subst s') simp
  have X0: "X s' = replicate K (replicate c (replicate (2 * block_size s) 0))"
    using X3 by (simp add: fft_zero)
  have u: "update (s\<lparr>X := Xa, overlap := oa\<rparr>) = Inr s'"
    using assms(1) by (simp add: update_ignores_history)
  show ?thesis
    using k H3 X3 X0 o3 u unfolding B by blast
qed

theorem update_resets_history_witness:
  "impulse_ok running \<and>
   (\<exists>s'. update running = Inr s' \<and>
      X s' = [[[0, 0], [0, 0]], [[0, 0], [0, 0]]] \<and> overlap s' = [[0], [0]] \<and>
      length (H s') = 2)"
proof -
  have i: "impulse_ok running"
    by (simp add: impulse_ok_def running_def default_parameters_def rect_def nrows_def)
  obtain s' where u: "update running = Inr s'"
    by (auto simp: update_def running_def default_parameters_def shaped_def shape0_def nrows_def
        flen_one padded_def Let_def)
  have B: "block_size s' = 1" and lH: "length (H s') = 2"
    using u by (auto simp: update_def running_def default_parameters_def shaped_def shape0_def
        nrows_def flen_one padded_def Let_def chopped_def
        nfilters_def)
  from update_resets_history[OF u i] obtain c K where
    r: "has_shape3 (2 * block_size s') c K (H s')"
       "X s' = replicate K (replicate c (replicate (2 * block_size s') 0))"
       "overlap s' = replicate c (replicate (block_size s') 0)"
    by blast
  have Hc: "H s' = map (map (\<lambda>c. fft (map complex_of_real c))) [[[1, 0], [1, 0]], [[0, 0], [0, 0]]]"
    using u by (auto simp: update_def running_def default_parameters_def shaped_def shape0_def
        nrows_def flen_one padded_def Let_def chopped_def
        nfilters_def)
  have K: "K = 2" using r(1) lH by (simp add: has_shape3_def)
  have c: "c = 2" using r(1) Hc by (simp add: has_shape3_def has_shape2_def K)
  have "X s' = [[[0, 0], [0, 0]], [[0, 0], [0, 0]]]"
    using r(2) by (simp add: K c B numeral_2_eq_2)
  moreover have "overlap s' = [[0], [0]]"
    using r(3) by (simp add: c B numeral_2_eq_2)
  ultimately show ?thesis using i u lH by blast
qed

text \<open>C4. After \<^verbatim>\<open>update\<close>, after the constructor, and after \<^verbatim>\<open>process\<close> on a
  state where it held, the history \<^verbatim>\<open>X\<close> has the shape of the filters \<^verbatim>\<open>H\<close>.\<close>

theorem history_matches_filters:
  "(impulse_ok s \<and> update s = Inr s' \<longrightarrow> same_shape s') \<and>
   (files_ok fs \<and> init fs ps B sr = Inr t \<longrightarrow> same_shape t) \<and>
   (same_shape u \<and> process u x = Inr (out, u') \<longrightarrow> same_shape u')"
  using update_same_shape[of s s'] init_same_shape[of fs ps B sr t]
    process_same_shape[of u x out u']
  by blast

theorem history_matches_filters_witness:
  "impulse_ok fresh \<and> (\<exists>s'. update fresh = Inr s' \<and> same_shape s') \<and>
   files_ok rooms \<and> (\<exists>t. init rooms None 2 44100 = Inr t \<and> same_shape t) \<and>
   same_shape running \<and>
   (\<exists>out u'. process running (A1 [3]) = Inr (out, u') \<and> same_shape u')"
proof -
  obtain s' where 1: "update fresh = Inr s'" using update_fresh by blast
  obtain t where 2: "init rooms None 2 44100 = Inr t" using init_rooms by blast
  obtain out u' where 3: "process running (A1 [3]) = Inr (out, u')"
    using process_running by blast
  show ?thesis
    using history_matches_filters[of fresh s' rooms None 2 44100 t running "A1 [3]" out u']
      1 2 3 impulse_ok_fresh files_ok_rooms same_shape_running
    by blast
qed

subsection \<open>\<^verbatim>\<open>process\<close>\<close>

text \<open>C10. A call of \<^verbatim>\<open>process\<close> that returns leaves the filters \<^verbatim>\<open>H\<close>, the
  partitioned impulse \<^verbatim>\<open>h\<close>, the dictionary of impulses, the block size, the sample
  rate and the parameters as they were: the new state is the old one with another history
  and another overlap. This holds with \<^verbatim>\<open>bypass\<close> unset and with it set.\<close>

theorem process_frame:
  assumes "process s x = Inr (out, s')"
  shows "H s' = H s \<and> h s' = h s \<and> h_new s' = h_new s \<and> impulses s' = impulses s \<and>
         block_size s' = block_size s \<and> sample_rate s' = sample_rate s \<and>
         parameters s' = parameters s \<and>
         s' = s\<lparr>X := X s', overlap := overlap s'\<rparr>"
proof -
  have e: "s' = s\<lparr>X := X s', overlap := overlap s'\<rparr>"
    using assms by (rule process_frame_aux)
  have "H s' = H s \<and> h s' = h s \<and> h_new s' = h_new s \<and> impulses s' = impulses s \<and>
         block_size s' = block_size s \<and> sample_rate s' = sample_rate s \<and>
         parameters s' = parameters s"
    by (subst e, simp)+
  with e show ?thesis by blast
qed

theorem process_frame_witness:
  "\<not> bypass (parameters running) \<and>
   (\<exists>out s'. process running (A1 [3]) = Inr (out, s') \<and>
      H s' = H running \<and> h s' = h running \<and> impulses s' = impulses running \<and>
      block_size s' = 1 \<and> sample_rate s' = 100)"
proof -
  obtain out u' where 3: "process running (A1 [3]) = Inr (out, u')"
    using process_running by blast
  have "block_size running = 1" "sample_rate running = 100" by (simp_all add: running_def)
  then show ?thesis
    using process_frame[OF 3] 3 running_shapes(1) by metis
qed

text \<open>C1. Let \<^verbatim>\<open>bypass\<close> be unset, let the history and the filters have \<open>K\<close> partitions
  of \<open>c\<close> channels and \<open>2 * B\<close> bins, the overlap \<open>c\<close> channels of \<open>B\<close> samples, and let the
  block, with a mono block copied to two channels, have \<open>c\<close> channels of \<open>B\<close> samples, \<open>B\<close>
  being the block size. Then \<^verbatim>\<open>process\<close> returns. The new history is the old one
  shifted by one partition with the transform of the zero-padded block in front. With \<open>Y\<close>
  the sum over the partitions of history times filters, bin by bin and channel by channel,
  and \<open>y\<close> the real part of its inverse transform, the returned block is \<open>wet_mix\<close> times
  (the first \<open>B\<close> samples of \<open>y\<close> plus the old overlap) plus \<open>dry_mix\<close> times the block, and
  the new overlap is the second \<open>B\<close> samples of \<open>y\<close>.\<close>

theorem process_overlap_add:
  assumes "\<not> bypass (parameters s)"
    and "block_size s = B" and "0 < B" and "0 < c" and "0 < K"
    and "has_shape3 (2 * B) c K (X s)" and "has_shape3 (2 * B) c K (H s)"
    and "has_shape2 B c (overlap s)" and "has_shape2 B c (stereo x)"
  shows "\<exists>out s' Y. process s x = Inr (A2 out, s') \<and>
           X s' = map (\<lambda>ch. fft (map complex_of_real (ch @ replicate B 0))) (stereo x)
                    # butlast (X s) \<and>
           H s' = H s \<and>
           has_shape2 (2 * B) c Y \<and>
           (\<forall>ci<c. \<forall>i<2 * B. Y ! ci ! i = (\<Sum>k<K. X s' ! k ! ci ! i * H s' ! k ! ci ! i)) \<and>
           has_shape2 B c out \<and> has_shape2 B c (overlap s') \<and>
           (\<forall>ci<c. \<forall>i<B.
              out ! ci ! i = wet_mix (parameters s) * (Re (ifft (Y ! ci) ! i) + overlap s ! ci ! i)
                             + dry_mix (parameters s) * stereo x ! ci ! i \<and>
              overlap s' ! ci ! i = Re (ifft (Y ! ci) ! (B + i)))"
proof -
  let ?X2 = "map (\<lambda>ch. fft (map complex_of_real (ch @ replicate B 0))) (stereo x) # butlast (X s)"
  from process_run[OF assms] obtain out ov Y where
    p: "process s x = Inr (A2 out, s\<lparr>X := ?X2, overlap := ov\<rparr>)" and
    Y: "has_shape2 (2 * B) c Y" and
    Yel: "\<forall>ci<c. \<forall>i<2 * B. Y ! ci ! i = (\<Sum>k\<leftarrow>[0..<K]. ?X2 ! k ! ci ! i * H s ! k ! ci ! i)" and
    sh: "has_shape2 B c out" "has_shape2 B c ov" and
    el: "\<forall>ci<c. \<forall>i<B.
              out ! ci ! i = (Re (ifft (Y ! ci) ! i) + overlap s ! ci ! i) * wet_mix (parameters s)
                             + stereo x ! ci ! i * dry_mix (parameters s) \<and>
              ov ! ci ! i = Re (ifft (Y ! ci) ! (B + i))"
    by blast
  let ?s' = "s\<lparr>X := ?X2, overlap := ov\<rparr>"
  have s: "(\<Sum>k\<leftarrow>[0..<K]. f k) = (\<Sum>k<K. f k)" for f :: "nat \<Rightarrow> complex"
    by (simp add: interv_sum_list_conv_sum_set_nat atLeast0LessThan)
  have Yel': "\<forall>ci<c. \<forall>i<2 * B. Y ! ci ! i = (\<Sum>k<K. X ?s' ! k ! ci ! i * H ?s' ! k ! ci ! i)"
    using Yel by (simp add: s)
  have el': "\<forall>ci<c. \<forall>i<B.
              out ! ci ! i = wet_mix (parameters s) * (Re (ifft (Y ! ci) ! i) + overlap s ! ci ! i)
                             + dry_mix (parameters s) * stereo x ! ci ! i \<and>
              overlap ?s' ! ci ! i = Re (ifft (Y ! ci) ! (B + i))"
    using el by (simp add: mult.commute)
  have "X ?s' = ?X2" "H ?s' = H s" "has_shape2 B c (overlap ?s')"
    using sh(2) by simp_all
  then show ?thesis
    using p Y Yel' sh(1) el' by blast
qed

theorem process_overlap_add_witness:
  "\<not> bypass (parameters running) \<and> block_size running = 1 \<and>
   has_shape3 (2 * 1) 2 2 (X running) \<and> has_shape3 (2 * 1) 2 2 (H running) \<and>
   has_shape2 1 2 (overlap running) \<and> has_shape2 1 2 (stereo (A1 [3])) \<and>
   (\<exists>s'. process running (A1 [3]) = Inr (A2 [[11 / 4], [109 / 40]], s') \<and>
      X s' = [[[3, 3], [3, 3]], [[3, 3], [4, 4]]] \<and> overlap s' = [[0], [0]])"
proof -
  from process_overlap_add[OF running_shapes(1,2) _ _ _ running_shapes(3,4,5,6)]
  obtain out s' Y where
    p: "process running (A1 [3]) = Inr (A2 out, s')" and
    X': "X s' = map (\<lambda>ch. fft (map complex_of_real (ch @ replicate 1 0))) (stereo (A1 [3]))
                    # butlast (X running)" and
    H': "H s' = H running" and
    Y: "has_shape2 (2 * 1) 2 Y" and
    Yel: "\<forall>ci<2. \<forall>i<2 * 1. Y ! ci ! i = (\<Sum>k<2. X s' ! k ! ci ! i * H s' ! k ! ci ! i)" and
    sh: "has_shape2 1 2 out" "has_shape2 1 2 (overlap s')" and
    el: "\<forall>ci<2. \<forall>i<1.
              out ! ci ! i = wet_mix (parameters running)
                               * (Re (ifft (Y ! ci) ! i) + overlap running ! ci ! i)
                             + dry_mix (parameters running) * stereo (A1 [3]) ! ci ! i \<and>
              overlap s' ! ci ! i = Re (ifft (Y ! ci) ! (1 + i))"
    by auto
  have X2: "X s' = [[[3, 3], [3, 3]], [[3, 3], [4, 4]]]"
    using X' by (simp add: stereo_def running_def fft_3_0)
  have Hr: "H s' = [[[1, 1], [1, 1]], [[0, 0], [0, 0]]]"
    using H' by (simp add: running_def)
  have two: "{..<2::nat} = {0, 1}" by auto
  have y: "Y ! ci ! i = 3" if "ci < 2" "i < 2" for ci i
  proof -
    have "ci = 0 \<or> ci = 1" "i = 0 \<or> i = 1" using that by auto
    then show ?thesis
      using Yel[rule_format, of ci i] that by (auto simp: X2 Hr two)
  qed
  have Yc: "Y ! ci = [3, 3]" if "ci < 2" for ci
  proof -
    have "length (Y ! ci) = 2" using Y that by (simp add: has_shape2_iff)
    then show ?thesis
      using y[OF that, of 0] y[OF that, of 1]
      by (intro nth_equalityI) (auto simp: less_Suc_eq numeral_2_eq_2)
  qed
  have o0: "out ! 0 ! 0 = 11 / 4" "overlap s' ! 0 ! 0 = 0"
    using el[rule_format, of 0 0]
    by (simp_all add: Yc ifft_3_3 running_def default_parameters_def stereo_def)
  have o1: "out ! 1 ! 0 = 109 / 40" "overlap s' ! 1 ! 0 = 0"
    using el[rule_format, of 1 0]
    by (simp_all add: Yc ifft_3_3 running_def default_parameters_def stereo_def)
  have l: "length out = 2" "length (out ! 0) = 1" "length (out ! 1) = 1"
    "length (overlap s') = 2" "length (overlap s' ! 0) = 1" "length (overlap s' ! 1) = 1"
    using sh by (simp_all add: has_shape2_iff)
  have one: "zs = [zs ! 0]" if "length zs = 1" for zs :: "real list"
    using that by (cases zs) auto
  have pair: "zs = [zs ! 0, zs ! 1]" if "length zs = 2" for zs :: "real list list"
    using that by (cases zs; cases "tl zs") auto
  have "out ! 0 = [11 / 4]" using one[OF l(2)] unfolding o0(1) .
  moreover have "out ! 1 = [109 / 40]" using one[OF l(3)] unfolding o1(1) .
  ultimately have out: "out = [[11 / 4], [109 / 40]]"
    using pair[OF l(1)] by metis
  have "overlap s' ! 0 = [0]" using one[OF l(5)] unfolding o0(2) .
  moreover have "overlap s' ! 1 = [0]" using one[OF l(6)] unfolding o1(2) .
  ultimately have ov: "overlap s' = [[0], [0]]"
    using pair[OF l(4)] by metis
  show ?thesis
    using running_shapes p X2 ov unfolding out by blast
qed

subsection \<open>\<^verbatim>\<open>load\<close>\<close>

text \<open>What the loop of \<^verbatim>\<open>load\<close> does for any files and options: every option gets
  the scaled samples of the one file that the current \<^verbatim>\<open>type\<close> names, and the sample
  rate of that file alone decides whether the error is raised.\<close>

lemma load_loop_impulses:
  assumes "load_loop fs s opts = Inr s'"
    and "map_of src (type_value (parameters s)) = Some name" and "fs name = Some (sr, dat)"
  shows "impulses s' = (\<lambda>k. if k \<in> set opts then Some (scale dat) else impulses s k)"
  using assms
proof (induction opts arbitrary: s)
  case Nil
  then show ?case by simp
next
  case (Cons reverb rest)
  let ?s2 = "s\<lparr>impulses := (impulses s)(reverb \<mapsto> scale dat)\<rparr>"
  have r: "load_loop fs ?s2 rest = Inr s'"
    using Cons.prems by (simp split: if_splits)
  have "impulses s' = (\<lambda>k. if k \<in> set rest then Some (scale dat) else impulses ?s2 k)"
    using Cons.IH[OF r] Cons.prems(2,3) by simp
  then show ?case by (auto simp: fun_eq_iff)
qed

lemma load_loop_raises:
  "load_loop fs s opts = Inl RuntimeError \<longleftrightarrow>
     opts \<noteq> [] \<and> (\<exists>name sr dat. map_of src (type_value (parameters s)) = Some name \<and>
                       fs name = Some (sr, dat) \<and> sr \<noteq> sample_rate s)"
proof (induction opts arbitrary: s)
  case Nil
  then show ?case by simp
next
  case (Cons reverb rest)
  show ?case
  proof (cases "map_of src (type_value (parameters s))")
    case None
    then show ?thesis by simp
  next
    case (Some name)
    show ?thesis
    proof (cases "fs name")
      case None
      then show ?thesis using Some by simp
    next
      case f: (Some p)
      obtain sr dat where p: "p = (sr, dat)" by (cases p)
      show ?thesis
      proof (cases "sr = sample_rate s")
        case False
        then show ?thesis using Some f p by simp
      next
        case True
        let ?s2 = "s\<lparr>impulses := (impulses s)(reverb \<mapsto> scale dat)\<rparr>"
        have "load_loop fs s (reverb # rest) = load_loop fs ?s2 rest"
          using Some f p True by simp
        moreover have "load_loop fs ?s2 rest \<noteq> Inl RuntimeError"
          using Cons.IH[of ?s2] Some f p True by simp
        ultimately show ?thesis using Some f p True by simp
      qed
    qed
  qed
qed

text \<open>C6 on the code. With the default parameters \<^verbatim>\<open>type\<close> is \<^verbatim>\<open>sm-room\<close>. For every
  option \<^verbatim>\<open>load\<close> reads the file of \<^verbatim>\<open>sm-room\<close>: the entry stored under \<^verbatim>\<open>hall\<close>
  holds the scaled samples of \<^verbatim>\<open>small_room.wav\<close>, not those of \<^verbatim>\<open>hall.wav\<close>.\<close>

theorem load_stores_selected_file:
  "\<exists>s'. load rooms unloaded = Inr s' \<and>
     type_value (parameters unloaded) = ''sm-room'' \<and>
     ''hall'' \<in> set (type_options (parameters unloaded)) \<and>
     map_of src ''hall'' = Some ''hall.wav'' \<and>
     rooms ''hall.wav'' = Some (44100, A2 [[32, 0, 0], [32, 0, 0]]) \<and>
     rooms ''small_room.wav'' = Some (44100, A2 [[8, 16], [8, 16]]) \<and>
     impulses s' ''hall'' = Some (scale (A2 [[8, 16], [8, 16]])) \<and>
     impulses s' ''hall'' \<noteq> Some (scale (A2 [[32, 0, 0], [32, 0, 0]]))"
  by (simp add: load_def unloaded_def default_parameters_def src_def rooms_def scale_def
        scale_sample_def)

text \<open>C8 on the code. With \<^verbatim>\<open>hall.wav\<close> at \<open>48000\<close> and the processor at \<open>44100\<close>,
  \<^verbatim>\<open>load\<close> returns without an error: only the sample rate of the file of the current
  \<^verbatim>\<open>type\<close> is compared.\<close>

theorem load_checks_selected_file_only:
  "\<exists>s'. load rooms_mixed_rates unloaded = Inr s' \<and>
     sample_rate unloaded = 44100 \<and>
     ''hall'' \<in> set (type_options (parameters unloaded)) \<and>
     map_of src ''hall'' = Some ''hall.wav'' \<and>
     rooms_mixed_rates ''hall.wav'' = Some (48000, A2 [[32, 0, 0], [32, 0, 0]]) \<and>
     impulses s' ''hall'' = Some (scale (A2 [[8, 16], [8, 16]]))"
  by (simp add: load_def unloaded_def default_parameters_def src_def rooms_mixed_rates_def
        rooms_def scale_def scale_sample_def)

end
